theory Spec2Isabelle
  imports Main "HOL-Library.Word" "HOL-Library.Monad_Syntax"
    "HOL-Library.Char_ord" "HOL-Library.List_Lexorder"
begin

unbundle bit_operations_syntax

section \<open>Data model\<close>

text \<open>
  C \<open>uint32_t\<close> is \<open>32 word\<close>, \<open>size_t\<close> is \<open>64 word\<close> (an LP64 build), and the C
  \<open>int\<close> of a session number is \<open>32 word\<close> read through \<open>sint\<close>, so that the
  increment of \<open>skynet_context_newsession\<close> wraps as the code expects.  Indices and
  capacities of the mailbox ring are \<open>nat\<close>: the code never stores a negative value
  in them, and the ring invariant below bounds them by the range of \<open>int\<close>.
\<close>

subsection \<open>Messages (skynet_mq.h, skynet_harbor.h)\<close>

record remote_name =
  rname :: string
  rhandle :: "32 word"

record remote_message =
  destination :: remote_name
  message :: "8 word list option"
  rsz :: "64 word"
  rtype :: int

datatype payload = Bytes "8 word list" | Remote remote_message

record skynet_message =
  source :: "32 word"
  session :: "32 word"
  data :: "payload option"
  sz :: "64 word"

definition MESSAGE_TYPE_MASK :: "64 word" where
  "MESSAGE_TYPE_MASK = drop_bit 8 (- 1)"

definition MESSAGE_TYPE_SHIFT :: nat where
  "MESSAGE_TYPE_SHIFT = (8 - 1) * 8"

definition PTYPE_TEXT :: int where "PTYPE_TEXT = 0"
definition PTYPE_SYSTEM :: int where "PTYPE_SYSTEM = 4"
definition PTYPE_HARBOR :: int where "PTYPE_HARBOR = 5"
definition PTYPE_ERROR :: int where "PTYPE_ERROR = 7"
definition PTYPE_TAG_DONTCOPY :: int where "PTYPE_TAG_DONTCOPY = 0x10000"
definition PTYPE_TAG_ALLOCSESSION :: int where "PTYPE_TAG_ALLOCSESSION = 0x20000"

definition HANDLE_MASK :: "32 word" where "HANDLE_MASK = 0xffffff"
definition HANDLE_REMOTE_SHIFT :: nat where "HANDLE_REMOTE_SHIFT = 24"

subsection \<open>Mailbox ring buffer (skynet_mq.c)\<close>

text \<open>
  \<open>struct message_queue\<close>.  \<open>queue\<close> is the malloc'ed array, a list of \<open>cap\<close> slots;
  \<open>qnext\<close> is the intrusive \<open>next\<close> pointer of the global run queue (an address in the
  store of mailboxes); the spinlock has no sequential content and is left out.
\<close>

record message_queue =
  qhandle :: "32 word"
  cap :: nat
  head :: nat
  tail :: nat
  release :: int
  in_global :: int
  overload :: nat
  overload_threshold :: nat
  queue :: "skynet_message list"
  qnext :: "nat option"

definition DEFAULT_QUEUE_SIZE :: nat where "DEFAULT_QUEUE_SIZE = 64"
definition MQ_IN_GLOBAL :: int where "MQ_IN_GLOBAL = 1"
definition MQ_OVERLOAD :: nat where "MQ_OVERLOAD = 1024"

text \<open>The content of a freshly allocated slot is not read before it is written.\<close>

definition blank_message :: skynet_message where
  "blank_message = \<lparr>source = 0, session = 0, data = None, sz = 0\<rparr>"

definition skynet_mq_create :: "32 word \<Rightarrow> message_queue" where
  "skynet_mq_create h =
     \<lparr>qhandle = h, cap = DEFAULT_QUEUE_SIZE, head = 0, tail = 0, release = 0,
      in_global = MQ_IN_GLOBAL, overload = 0, overload_threshold = MQ_OVERLOAD,
      queue = replicate DEFAULT_QUEUE_SIZE blank_message, qnext = None\<rparr>"

definition skynet_mq_handle :: "message_queue \<Rightarrow> 32 word" where
  "skynet_mq_handle q = qhandle q"

definition skynet_mq_length :: "message_queue \<Rightarrow> nat" where
  "skynet_mq_length q =
     (if head q \<le> tail q then tail q - head q else tail q + cap q - head q)"

definition skynet_mq_overload :: "message_queue \<Rightarrow> nat \<times> message_queue" where
  "skynet_mq_overload q =
     (if overload q \<noteq> 0 then (overload q, q\<lparr>overload := 0\<rparr>) else (0, q))"

text \<open>
  \<open>expand_queue\<close>: the new array has \<open>2 * cap\<close> slots, the first \<open>cap\<close> of them copied
  from the old ring starting at \<open>head\<close>.
\<close>

definition expand_queue :: "message_queue \<Rightarrow> message_queue" where
  "expand_queue q =
     q\<lparr>queue := map (\<lambda>i. queue q ! ((head q + i) mod cap q)) [0..<cap q]
                 @ replicate (cap q) blank_message,
       head := 0, tail := cap q, cap := cap q * 2\<rparr>"

text \<open>
  The part of \<open>skynet_mq_push\<close> that works on the ring itself: store at \<open>tail\<close>,
  advance \<open>tail\<close> with wrap-around, expand when it meets \<open>head\<close>.
\<close>

definition mq_store :: "message_queue \<Rightarrow> skynet_message \<Rightarrow> message_queue" where
  "mq_store q m =
     (let q1 = q\<lparr>queue := (queue q)[tail q := m]\<rparr>;
          q2 = (if tail q1 + 1 \<ge> cap q1 then q1\<lparr>tail := 0\<rparr> else q1\<lparr>tail := tail q1 + 1\<rparr>)
      in if head q2 = tail q2 then expand_queue q2 else q2)"

text \<open>The messages a mailbox holds, oldest first.\<close>

definition mq_contents :: "message_queue \<Rightarrow> skynet_message list" where
  "mq_contents q = map (\<lambda>i. queue q ! ((head q + i) mod cap q)) [0..<skynet_mq_length q]"

definition mq_wf :: "message_queue \<Rightarrow> bool" where
  "mq_wf q = (0 < cap q \<and> cap q < 2 ^ 30 \<and> head q < cap q \<and> tail q < cap q
              \<and> length (queue q) = cap q)"


text \<open>
  The loop of \<open>skynet_mq_pop\<close> that doubles the overload threshold.  It does not
  end when the threshold is 0, so it is a partial function: \<open>None\<close> is "no return".
\<close>

partial_function (option) overload_loop :: "nat \<Rightarrow> nat \<Rightarrow> nat \<Rightarrow> (nat \<times> nat) option" where
  "overload_loop len ov th =
     (if len > th then overload_loop len len (th * 2) else Some (ov, th))"

text \<open>
  \<open>skynet_mq_pop\<close> touches only the mailbox.  The result is the popped message
  (\<open>Some m\<close> where the C function returns 0 and fills \<open>*message\<close>, \<open>None\<close> where it
  returns 1) and the updated mailbox.
\<close>

definition skynet_mq_pop :: "message_queue \<Rightarrow> (skynet_message option \<times> message_queue) option" where
  "skynet_mq_pop q =
     (if head q \<noteq> tail q then
        (let m = queue q ! head q;
             head1 = head q + 1;
             head2 = (if head1 \<ge> cap q then 0 else head1);
             len0 = int (tail q) - int head2;
             len = (if len0 < 0 then len0 + int (cap q) else len0)
         in do {
              (ov, th) \<leftarrow> overload_loop (nat len) (overload q) (overload_threshold q);
              Some (Some m, q\<lparr>head := head2, overload := ov, overload_threshold := th\<rparr>)
            })
      else Some (None, q\<lparr>overload_threshold := MQ_OVERLOAD, in_global := 0\<rparr>))"

subsection \<open>Service contexts, registry and the process state\<close>

text \<open>
  \<open>struct skynet_context\<close> (skynet_server.c).  \<open>cb\<close> is the address of the handler
  (\<open>None\<close> is \<open>NULL\<close>); what the handler does is given by an interpretation that the
  dispatcher takes as a parameter.  \<open>ctx_queue\<close> is the address of the mailbox,
  \<open>logfile\<close> the open \<open>FILE *\<close>.  The module and its instance are opaque to the
  core and are left out.
\<close>

record skynet_context =
  handle :: "32 word"
  cb :: "nat option"
  ctx_queue :: nat
  logfile :: "nat option"
  cpu_cost :: "64 word"
  cpu_start :: "64 word"
  result :: string
  session_id :: "32 word"
  ref :: int
  message_count :: "64 word"
  init :: bool
  endless :: bool
  profile :: bool

text \<open>\<open>struct handle_storage\<close> (skynet_handle.c); \<open>name_count\<close> is \<open>length (name s)\<close>.\<close>

record handle_storage =
  harbor :: "32 word"
  handle_index :: "32 word"
  slot_size :: nat
  slot :: "nat option list"
  name_cap :: nat
  name :: "(string \<times> 32 word) list"

text \<open>One line written by \<open>skynet_log_output\<close> to a per-service log file.\<close>

record log_record =
  log_file :: nat
  log_source :: "32 word"
  log_type :: int
  log_session :: "32 word"
  log_data :: "payload option"
  log_sz :: "64 word"

text \<open>
  The process state: the stores of mailboxes and contexts (addresses are \<open>nat\<close>), the
  global run queue \<open>Q\<close> (head and tail pointers; the links are the \<open>qnext\<close> fields),
  the registry \<open>H\<close>, \<open>G_NODE.total\<close>, the thread-local current handle, the harbor
  globals, the cached \<open>logger\<close> handle of \<open>skynet_error\<close>, the CPU clock that
  \<open>skynet_thread_time\<close> reads, and what has been written to the log files.
\<close>

record world =
  mqs :: "nat \<rightharpoonup> message_queue"
  ctxs :: "nat \<rightharpoonup> skynet_context"
  Q_head :: "nat option"
  Q_tail :: "nat option"
  H :: handle_storage
  G_total :: int
  handle_key :: "32 word"
  HARBOR :: "32 word"
  REMOTE :: "nat option"
  logger :: "32 word"
  thread_time :: "64 word"
  log_out :: "log_record list"

text \<open>
  Functions on the process state return \<open>None\<close> where the C code does not return:
  a failed \<open>assert\<close>, a dereference of an address that holds nothing, or a loop
  that does not end.
\<close>

definition c_assert :: "bool \<Rightarrow> unit option" where
  "c_assert b = (if b then Some () else None)"

definition skynet_globalmq_push :: "nat \<Rightarrow> world \<Rightarrow> world option" where
  "skynet_globalmq_push p w = do {
     q \<leftarrow> mqs w p;
     c_assert (qnext q = None);
     (case Q_tail w of
        Some t \<Rightarrow> do {
          tq \<leftarrow> mqs w t;
          Some (w\<lparr>mqs := (mqs w)(t \<mapsto> tq\<lparr>qnext := Some p\<rparr>), Q_tail := Some p\<rparr>)
        }
      | None \<Rightarrow> Some (w\<lparr>Q_head := Some p, Q_tail := Some p\<rparr>))
   }"

definition skynet_globalmq_pop :: "world \<Rightarrow> (nat option \<times> world) option" where
  "skynet_globalmq_pop w =
     (case Q_head w of
        None \<Rightarrow> Some (None, w)
      | Some p \<Rightarrow> do {
          mq \<leftarrow> mqs w p;
          w1 \<leftarrow> (if qnext mq = None
                 then do { c_assert (Some p = Q_tail w);
                           Some (w\<lparr>Q_head := None, Q_tail := None\<rparr>) }
                 else Some (w\<lparr>Q_head := qnext mq\<rparr>));
          Some (Some p, w1\<lparr>mqs := (mqs w1)(p \<mapsto> mq\<lparr>qnext := None\<rparr>)\<rparr>)
        })"

definition skynet_mq_push :: "nat \<Rightarrow> skynet_message \<Rightarrow> world \<Rightarrow> world option" where
  "skynet_mq_push p m w = do {
     q \<leftarrow> mqs w p;
     let q1 = mq_store q m;
     if in_global q1 = 0
     then skynet_globalmq_push p (w\<lparr>mqs := (mqs w)(p \<mapsto> q1\<lparr>in_global := MQ_IN_GLOBAL\<rparr>)\<rparr>)
     else Some (w\<lparr>mqs := (mqs w)(p \<mapsto> q1)\<rparr>)
   }"

definition skynet_mq_mark_release :: "nat \<Rightarrow> world \<Rightarrow> world option" where
  "skynet_mq_mark_release p w = do {
     q \<leftarrow> mqs w p;
     c_assert (release q = 0);
     let w1 = w\<lparr>mqs := (mqs w)(p \<mapsto> q\<lparr>release := 1\<rparr>)\<rparr>;
     if in_global q \<noteq> MQ_IN_GLOBAL then skynet_globalmq_push p w1 else Some w1
   }"


subsection \<open>Registry (skynet_handle.c)\<close>

text \<open>
  \<open>strcmp\<close> of the C library on strings without their terminating NUL: the
  difference of the first two bytes that differ, read as \<open>unsigned char\<close>.
\<close>

fun strcmp :: "string \<Rightarrow> string \<Rightarrow> int" where
  "strcmp [] [] = 0"
| "strcmp [] (y # ys) = - int (of_char y)"
| "strcmp (x # xs) [] = int (of_char x)"
| "strcmp (x # xs) (y # ys) =
     (if x = y then strcmp xs ys else int (of_char x) - int (of_char y))"

text \<open>A C string holds no NUL byte before its end.\<close>

definition cstring :: "string \<Rightarrow> bool" where
  "cstring s = (CHR 0x00 \<notin> set s)"

text \<open>The binary search of \<open>skynet_handle_findname\<close> between \<open>bgn\<close> and \<open>en\<close>.\<close>

function findname_loop :: "(string \<times> 32 word) list \<Rightarrow> string \<Rightarrow> int \<Rightarrow> int \<Rightarrow> 32 word" where
  "findname_loop ns nm bgn en =
     (if bgn \<le> en then
        (let mid = (bgn + en) div 2;
             n = ns ! nat mid;
             c = strcmp (fst n) nm
         in if c = 0 then snd n
            else if c < 0 then findname_loop ns nm (mid + 1) en
            else findname_loop ns nm bgn (mid - 1))
      else 0)"
  by pat_completeness auto
termination
  by (relation "measure (\<lambda>(ns, nm, bgn, en). nat (en - bgn + 1))") auto

definition skynet_handle_findname :: "string \<Rightarrow> handle_storage \<Rightarrow> 32 word" where
  "skynet_handle_findname nm s = findname_loop (name s) nm 0 (int (length (name s)) - 1)"

text \<open>
  The search of \<open>_insert_name\<close>: \<open>None\<close> where the name is found (the C function
  returns \<open>NULL\<close>), otherwise the index \<open>begin\<close> at which the loop ends.
\<close>

function insert_name_loop :: "(string \<times> 32 word) list \<Rightarrow> string \<Rightarrow> int \<Rightarrow> int \<Rightarrow> int option" where
  "insert_name_loop ns nm bgn en =
     (if bgn \<le> en then
        (let mid = (bgn + en) div 2;
             n = ns ! nat mid;
             c = strcmp (fst n) nm
         in if c = 0 then None
            else if c < 0 then insert_name_loop ns nm (mid + 1) en
            else insert_name_loop ns nm bgn (mid - 1))
      else Some bgn)"
  by pat_completeness auto
termination
  by (relation "measure (\<lambda>(ns, nm, bgn, en). nat (en - bgn + 1))") auto

definition MAX_SLOT_SIZE :: nat where "MAX_SLOT_SIZE = 0x40000000"

text \<open>
  \<open>_insert_name_before\<close>: both branches (a doubled array, or a shift in place)
  leave the entries before \<open>before\<close> where they are, move the others up by one and
  write the new entry at \<open>before\<close>.
\<close>

definition insert_name_before ::
    "handle_storage \<Rightarrow> string \<Rightarrow> 32 word \<Rightarrow> nat \<Rightarrow> handle_storage option" where
  "insert_name_before s nm h before =
     (let ns = take before (name s) @ [(nm, h)] @ drop before (name s)
      in if length (name s) \<ge> name_cap s
         then do { c_assert (name_cap s * 2 \<le> MAX_SLOT_SIZE);
                   Some (s\<lparr>name_cap := name_cap s * 2, name := ns\<rparr>) }
         else Some (s\<lparr>name := ns\<rparr>))"

text \<open>
  \<open>_insert_name\<close> returns the copied name or \<open>NULL\<close>: here \<open>Some nm\<close> or \<open>None\<close>,
  with the registry.
\<close>

definition insert_name ::
    "handle_storage \<Rightarrow> string \<Rightarrow> 32 word \<Rightarrow> (string option \<times> handle_storage) option" where
  "insert_name s nm h =
     (case insert_name_loop (name s) nm 0 (int (length (name s)) - 1) of
        None \<Rightarrow> Some (None, s)
      | Some bgn \<Rightarrow> do { s1 \<leftarrow> insert_name_before s nm h (nat bgn); Some (Some nm, s1) })"

definition skynet_handle_namehandle ::
    "32 word \<Rightarrow> string \<Rightarrow> world \<Rightarrow> (string option \<times> world) option" where
  "skynet_handle_namehandle h nm w = do {
     (r, s1) \<leftarrow> insert_name (H w) nm h;
     Some (r, w\<lparr>H := s1\<rparr>)
   }"

definition skynet_context_grab :: "nat \<Rightarrow> world \<Rightarrow> world option" where
  "skynet_context_grab c w = do {
     ctx \<leftarrow> ctxs w c;
     Some (w\<lparr>ctxs := (ctxs w)(c \<mapsto> ctx\<lparr>ref := ref ctx + 1\<rparr>)\<rparr>)
   }"

text \<open>
  \<open>skynet_handle_grab\<close>: the slot is \<open>handle & (slot_size - 1)\<close>; a slot outside the
  array is an out-of-bounds read.
\<close>

definition skynet_handle_grab :: "32 word \<Rightarrow> world \<Rightarrow> (nat option \<times> world) option" where
  "skynet_handle_grab h w =
     (let s = H w; hash = unat (h AND (of_nat (slot_size s) - 1))
      in if hash < length (slot s) then
           (case slot s ! hash of
              None \<Rightarrow> Some (None, w)
            | Some c \<Rightarrow> do {
                ctx \<leftarrow> ctxs w c;
                if handle ctx = h
                then do { w1 \<leftarrow> skynet_context_grab c w; Some (Some c, w1) }
                else Some (None, w)
              })
         else None)"


subsection \<open>Contexts, sending and dispatch (skynet_server.c, skynet_error.c, skynet_harbor.c)\<close>

text \<open>The \<open>printf\<close> conversions the error lines use: \<open>%x\<close>, \<open>%08x\<close>, \<open>%d\<close> and \<open>%zu\<close>.\<close>

definition hex_digit :: "nat \<Rightarrow> char" where
  "hex_digit n = ''0123456789abcdef'' ! (n mod 16)"

definition fmt_08x :: "32 word \<Rightarrow> string" where
  "fmt_08x v = map (\<lambda>i. hex_digit (unat (drop_bit (4 * (7 - i)) v AND 0xf))) [0..<8]"

definition fmt_x :: "32 word \<Rightarrow> string" where
  "fmt_x v = (let t = dropWhile (\<lambda>c. c = CHR ''0'') (fmt_08x v) in if t = [] then ''0'' else t)"

fun fmt_u :: "nat \<Rightarrow> string" where
  "fmt_u n = (if n < 10 then [hex_digit n] else fmt_u (n div 10) @ [hex_digit (n mod 10)])"

definition fmt_d :: "int \<Rightarrow> string" where
  "fmt_d i = (if i < 0 then CHR ''-'' # fmt_u (nat (- i)) else fmt_u (nat i))"

definition skynet_context_newsession :: "skynet_context \<Rightarrow> 32 word \<times> skynet_context" where
  "skynet_context_newsession ctx =
     (let session = session_id ctx + 1;
          ctx1 = ctx\<lparr>session_id := session\<rparr>
      in if sint session \<le> 0 then (1, ctx1\<lparr>session_id := 1\<rparr>) else (session, ctx1))"

text \<open>
  \<open>delete_context\<close>: the log file is closed, the module's \<open>release\<close> hook runs (module
  code, outside the model), the mailbox is marked for release, the context is freed
  and the service count decremented.
\<close>

definition delete_context :: "nat \<Rightarrow> world \<Rightarrow> world option" where
  "delete_context c w = do {
     ctx \<leftarrow> ctxs w c;
     w1 \<leftarrow> skynet_mq_mark_release (ctx_queue ctx) w;
     Some (w1\<lparr>ctxs := (ctxs w1)(c := None), G_total := G_total w1 - 1\<rparr>)
   }"

text \<open>\<open>skynet_context_release\<close> returns the context, or \<open>NULL\<close> when it was the last reference.\<close>

definition skynet_context_release :: "nat \<Rightarrow> world \<Rightarrow> (nat option \<times> world) option" where
  "skynet_context_release c w = do {
     ctx \<leftarrow> ctxs w c;
     let w1 = w\<lparr>ctxs := (ctxs w)(c \<mapsto> ctx\<lparr>ref := ref ctx - 1\<rparr>)\<rparr>;
     if ref ctx = 1
     then do { w2 \<leftarrow> delete_context c w1; Some (None, w2) }
     else Some (Some c, w1)
   }"

definition skynet_context_push :: "32 word \<Rightarrow> skynet_message \<Rightarrow> world \<Rightarrow> (int \<times> world) option" where
  "skynet_context_push h m w = do {
     (co, w1) \<leftarrow> skynet_handle_grab h w;
     (case co of
        None \<Rightarrow> Some (- 1, w1)
      | Some c \<Rightarrow> do {
          ctx \<leftarrow> ctxs w1 c;
          w2 \<leftarrow> skynet_mq_push (ctx_queue ctx) m w1;
          (r, w3) \<leftarrow> skynet_context_release c w2;
          Some (0, w3)
        })
   }"

definition skynet_context_endless :: "32 word \<Rightarrow> world \<Rightarrow> world option" where
  "skynet_context_endless h w = do {
     (co, w1) \<leftarrow> skynet_handle_grab h w;
     (case co of
        None \<Rightarrow> Some w1
      | Some c \<Rightarrow> do {
          ctx \<leftarrow> ctxs w1 c;
          (r, w2) \<leftarrow> skynet_context_release c (w1\<lparr>ctxs := (ctxs w1)(c \<mapsto> ctx\<lparr>endless := True\<rparr>)\<rparr>);
          Some w2
        })
   }"

text \<open>
  \<open>skynet_error\<close> with the line already formatted (\<open>vsnprintf\<close> does not fail on the
  formats used): the handle of the logger is looked up once and cached, and the line
  is pushed to the logger's mailbox as a \<open>PTYPE_TEXT\<close> message.
\<close>

definition skynet_error :: "nat option \<Rightarrow> string \<Rightarrow> world \<Rightarrow> world option" where
  "skynet_error context line w =
     (let lg = (if logger w = 0 then skynet_handle_findname ''logger'' (H w) else logger w);
          w1 = w\<lparr>logger := lg\<rparr>
      in if lg = 0 then Some w1
         else do {
           src \<leftarrow> (case context of None \<Rightarrow> Some 0
                    | Some c \<Rightarrow> do { ctx \<leftarrow> ctxs w1 c; Some (handle ctx) });
           let smsg = \<lparr>source = src, session = 0,
                       data = Some (Bytes (map of_char line)),
                       sz = of_nat (length line)
                            OR push_bit MESSAGE_TYPE_SHIFT (of_int PTYPE_TEXT)\<rparr>;
           (r, w2) \<leftarrow> skynet_context_push lg smsg w1;
           Some w2
         })"

definition skynet_harbor_message_isremote :: "32 word \<Rightarrow> world \<Rightarrow> bool option" where
  "skynet_harbor_message_isremote h w = do {
     c_assert (HARBOR w \<noteq> NOT 0);
     let hh = h AND NOT HANDLE_MASK;
     Some (hh \<noteq> HARBOR w \<and> hh \<noteq> 0)
   }"

definition skynet_context_send ::
    "nat \<Rightarrow> payload option \<Rightarrow> 64 word \<Rightarrow> 32 word \<Rightarrow> int \<Rightarrow> 32 word \<Rightarrow> world \<Rightarrow> world option" where
  "skynet_context_send c msg sz0 src type sess w = do {
     ctx \<leftarrow> ctxs w c;
     skynet_mq_push (ctx_queue ctx)
       \<lparr>source = src, session = sess, data = msg,
        sz = sz0 OR push_bit MESSAGE_TYPE_SHIFT (of_int type)\<rparr> w
   }"

definition invalid_type :: "int \<Rightarrow> bool" where
  "invalid_type type = (type \<noteq> PTYPE_SYSTEM \<and> type \<noteq> PTYPE_HARBOR)"

text \<open>\<open>sizeof(struct remote_message)\<close> on LP64.\<close>

definition sizeof_remote_message :: "64 word" where
  "sizeof_remote_message = 48"

definition skynet_harbor_send :: "remote_message \<Rightarrow> 32 word \<Rightarrow> 32 word \<Rightarrow> world \<Rightarrow> world option" where
  "skynet_harbor_send rmsg src sess w = do {
     c_assert (invalid_type (rtype rmsg) \<and> REMOTE w \<noteq> None);
     r \<leftarrow> REMOTE w;
     skynet_context_send r (Some (Remote rmsg)) sizeof_remote_message src PTYPE_SYSTEM sess w
   }"

text \<open>
  \<open>_filter_args\<close>: returns the session, the (copied) payload and the size word with
  the type packed in; the copy takes \<open>sz\<close> bytes and appends a NUL.
\<close>

definition filter_args ::
    "nat option \<Rightarrow> int \<Rightarrow> 32 word \<Rightarrow> payload option \<Rightarrow> 64 word \<Rightarrow> world
     \<Rightarrow> (32 word \<times> payload option \<times> 64 word \<times> world) option" where
  "filter_args context type sess dat sz0 w = do {
     let needcopy = (type AND PTYPE_TAG_DONTCOPY = 0);
     let allocsession = type AND PTYPE_TAG_ALLOCSESSION;
     let type1 = type AND 0xff;
     (sess1, w1) \<leftarrow>
        (if allocsession \<noteq> 0
         then do { c_assert (sess = 0);
                   c \<leftarrow> context;
                   ctx \<leftarrow> ctxs w c;
                   let (s1, ctx1) = skynet_context_newsession ctx;
                   Some (s1, w\<lparr>ctxs := (ctxs w)(c \<mapsto> ctx1)\<rparr>) }
         else Some (sess, w));
     let dat1 = (case dat of
                   Some (Bytes bs) \<Rightarrow>
                     if needcopy then Some (Bytes (take (unat sz0) bs @ [0])) else dat
                 | other \<Rightarrow> other);
     Some (sess1, dat1, sz0 OR push_bit MESSAGE_TYPE_SHIFT (of_int type1), w1)
   }"

text \<open>\<open>skynet_send\<close>; the returned \<open>int\<close> is \<open>- 2\<close>, \<open>- 1\<close> or the session.\<close>

definition skynet_send ::
    "nat option \<Rightarrow> 32 word \<Rightarrow> 32 word \<Rightarrow> int \<Rightarrow> 32 word \<Rightarrow> payload option \<Rightarrow> 64 word \<Rightarrow> world
     \<Rightarrow> (int \<times> world) option" where
  "skynet_send context src dest type sess dat sz0 w =
     (if sz0 AND MESSAGE_TYPE_MASK \<noteq> sz0 then do {
        w1 \<leftarrow> skynet_error context
                (''error: The message to '' @ fmt_x dest @ '' is too large'') w;
        Some (- 2, w1)
      } else do {
        (sess1, dat1, sz1, w1) \<leftarrow> filter_args context type sess dat sz0 w;
        src1 \<leftarrow> (if src = 0
                 then do { c \<leftarrow> context; ctx \<leftarrow> ctxs w1 c; Some (handle ctx) }
                 else Some src);
        if dest = 0 then
          (if dat1 \<noteq> None then do {
             w2 \<leftarrow> skynet_error context ''error: Destination address can't be 0'' w1;
             Some (- 1, w2)
           } else Some (sint sess1, w1))
        else do {
          remote \<leftarrow> skynet_harbor_message_isremote dest w1;
          if remote then do {
            let rmsg = \<lparr>destination = \<lparr>rname = [], rhandle = dest\<rparr>,
                        message = (case dat1 of Some (Bytes bs) \<Rightarrow> Some bs | _ \<Rightarrow> None),
                        rsz = sz1 AND MESSAGE_TYPE_MASK,
                        rtype = uint (drop_bit MESSAGE_TYPE_SHIFT sz1)\<rparr>;
            w2 \<leftarrow> skynet_harbor_send rmsg src1 sess1 w1;
            Some (sint sess1, w2)
          } else do {
            (r, w2) \<leftarrow> skynet_context_push dest
                         \<lparr>source = src1, session = sess1, data = dat1, sz = sz1\<rparr> w1;
            if r \<noteq> 0 then Some (- 1, w2) else Some (sint sess1, w2)
          }
        }
      })"

definition drop_message :: "skynet_message \<Rightarrow> 32 word \<Rightarrow> world \<Rightarrow> world option" where
  "drop_message msg h w = do {
     c_assert (h \<noteq> 0);
     (r, w1) \<leftarrow> skynet_send None h (source msg) PTYPE_ERROR (session msg) None 0 w;
     Some w1
   }"


text \<open>
  \<open>skynet_mq_release\<close> and \<open>_drop_queue\<close>, with \<open>drop_message\<close> as the drop function
  (its only use in the core).  \<open>_release\<close> frees the mailbox.  The loop of
  \<open>_drop_queue\<close> runs until a pop finds the mailbox empty.
\<close>

definition mq_free :: "nat \<Rightarrow> world \<Rightarrow> world option" where
  "mq_free p w = do {
     q \<leftarrow> mqs w p;
     c_assert (qnext q = None);
     Some (w\<lparr>mqs := (mqs w)(p := None)\<rparr>)
   }"

partial_function (option) drop_queue :: "nat \<Rightarrow> 32 word \<Rightarrow> world \<Rightarrow> world option" where
  "drop_queue p h w = do {
     q \<leftarrow> mqs w p;
     (mo, q1) \<leftarrow> skynet_mq_pop q;
     let w1 = w\<lparr>mqs := (mqs w)(p \<mapsto> q1)\<rparr>;
     (case mo of
        None \<Rightarrow> mq_free p w1
      | Some msg \<Rightarrow> do { w2 \<leftarrow> drop_message msg h w1; drop_queue p h w2 })
   }"

definition skynet_mq_release :: "nat \<Rightarrow> 32 word \<Rightarrow> world \<Rightarrow> world option" where
  "skynet_mq_release p h w = do {
     q \<leftarrow> mqs w p;
     if release q \<noteq> 0 then drop_queue p h w else skynet_globalmq_push p w
   }"

subsection \<open>Stall monitor (skynet_monitor.c)\<close>

record skynet_monitor =
  version :: "32 word"
  check_version :: "32 word"
  msource :: "32 word"
  mdestination :: "32 word"

definition skynet_monitor_new :: skynet_monitor where
  "skynet_monitor_new = \<lparr>version = 0, check_version = 0, msource = 0, mdestination = 0\<rparr>"

definition skynet_monitor_trigger :: "skynet_monitor \<Rightarrow> 32 word \<Rightarrow> 32 word \<Rightarrow> skynet_monitor" where
  "skynet_monitor_trigger sm src dst =
     sm\<lparr>msource := src, mdestination := dst, version := version sm + 1\<rparr>"

definition skynet_monitor_check :: "skynet_monitor \<Rightarrow> world \<Rightarrow> (skynet_monitor \<times> world) option" where
  "skynet_monitor_check sm w =
     (if version sm = check_version sm then
        (if mdestination sm \<noteq> 0 then do {
           w1 \<leftarrow> skynet_context_endless (mdestination sm) w;
           w2 \<leftarrow> skynet_error None
                  (''error: A message from [ :'' @ fmt_08x (msource sm) @ '' ] to [ :''
                   @ fmt_08x (mdestination sm) @ '' ] maybe in an endless loop (version = ''
                   @ fmt_d (sint (version sm)) @ '')'') w1;
           Some (sm, w2)
         } else Some (sm, w))
      else Some (sm\<lparr>check_version := version sm\<rparr>, w))"

subsection \<open>Dispatch (skynet_server.c)\<close>

text \<open>
  What a handler does is outside the core: \<open>run f c type session source data sz w\<close>
  is the effect of calling the handler at address \<open>f\<close> for the context at \<open>c\<close>; it
  returns the handler's result and the new process state, or \<open>None\<close> if the handler
  does not return.
\<close>

type_synonym handler =
  "nat \<Rightarrow> nat \<Rightarrow> int \<Rightarrow> 32 word \<Rightarrow> 32 word \<Rightarrow> payload option \<Rightarrow> 64 word \<Rightarrow> world
   \<Rightarrow> (int \<times> world) option"

definition dispatch_message :: "handler \<Rightarrow> nat \<Rightarrow> skynet_message \<Rightarrow> world \<Rightarrow> world option" where
  "dispatch_message run c msg w = do {
     ctx \<leftarrow> ctxs w c;
     c_assert (init ctx);
     let w1 = w\<lparr>handle_key := handle ctx\<rparr>;
     let type = uint (drop_bit MESSAGE_TYPE_SHIFT (sz msg));
     let sz1 = sz msg AND MESSAGE_TYPE_MASK;
     let w2 = (case logfile ctx of
                 None \<Rightarrow> w1
               | Some f \<Rightarrow> w1\<lparr>log_out := log_out w1 @
                   [\<lparr>log_file = f, log_source = source msg, log_type = type,
                     log_session = session msg, log_data = data msg, log_sz = sz1\<rparr>]\<rparr>);
     let ctx1 = ctx\<lparr>message_count := message_count ctx + 1\<rparr>;
     f \<leftarrow> cb ctx1;
     if profile ctx1 then do {
       let w3 = w2\<lparr>ctxs := (ctxs w2)(c \<mapsto> ctx1\<lparr>cpu_start := thread_time w2\<rparr>)\<rparr>;
       (reserve_msg, w4) \<leftarrow> run f c type (session msg) (source msg) (data msg) sz1 w3;
       ctx4 \<leftarrow> ctxs w4 c;
       let cost_time = thread_time w4 - cpu_start ctx4;
       Some (w4\<lparr>ctxs := (ctxs w4)(c \<mapsto> ctx4\<lparr>cpu_cost := cpu_cost ctx4 + cost_time\<rparr>)\<rparr>)
     } else do {
       let w3 = w2\<lparr>ctxs := (ctxs w2)(c \<mapsto> ctx1)\<rparr>;
       (reserve_msg, w4) \<leftarrow> run f c type (session msg) (source msg) (data msg) sz1 w3;
       Some w4
     }
   }"

text \<open>
  The \<open>for\<close> loop of \<open>skynet_context_message_dispatch\<close>, from the index \<open>i\<close> with the
  bound \<open>n\<close>.  It ends either by the early \<open>return skynet_globalmq_pop()\<close> (result
  \<open>Inl\<close> of the mailbox to return) or by running out (\<open>Inr\<close>).
\<close>

function dispatch_loop ::
    "handler \<Rightarrow> nat \<Rightarrow> nat \<Rightarrow> 32 word \<Rightarrow> int \<Rightarrow> int \<Rightarrow> int \<Rightarrow> skynet_monitor \<Rightarrow> world
     \<Rightarrow> ((nat option + unit) \<times> skynet_monitor \<times> world) option" where
  "dispatch_loop run c q h weight i n sm w =
     (if i < n then
        (case mqs w q of
           None \<Rightarrow> None
         | Some mq \<Rightarrow>
           (case skynet_mq_pop mq of
              None \<Rightarrow> None
            | Some (None, mq1) \<Rightarrow>
                (case skynet_context_release c (w\<lparr>mqs := (mqs w)(q \<mapsto> mq1)\<rparr>) of
                   None \<Rightarrow> None
                 | Some (r, w1) \<Rightarrow>
                     (case skynet_globalmq_pop w1 of
                        None \<Rightarrow> None
                      | Some (nq, w2) \<Rightarrow> Some (Inl nq, sm, w2)))
            | Some (Some msg, mq1) \<Rightarrow>
                (let n1 = (if i = 0 \<and> weight \<ge> 0
                           then int (skynet_mq_length mq1) div 2 ^ nat weight else n);
                     (ov, mq2) = skynet_mq_overload mq1;
                     w1 = w\<lparr>mqs := (mqs w)(q \<mapsto> mq2)\<rparr>
                 in case (if ov \<noteq> 0
                          then skynet_error (Some c)
                                 (''error: May overload, message queue length = ''
                                  @ fmt_d (int ov)) w1
                          else Some w1) of
                      None \<Rightarrow> None
                    | Some w2 \<Rightarrow>
                       (let sm1 = skynet_monitor_trigger sm (source msg) h
                        in case ctxs w2 c of
                             None \<Rightarrow> None
                           | Some ctx \<Rightarrow>
                              (case (if cb ctx = None then Some w2
                                     else dispatch_message run c msg w2) of
                                 None \<Rightarrow> None
                               | Some w3 \<Rightarrow>
                                   dispatch_loop run c q h weight (i + 1) n1
                                     (skynet_monitor_trigger sm1 0 0) w3)))))
      else Some (Inr (), sm, w))"
  by pat_completeness auto
termination
  by (relation "measures [\<lambda>(run, c, q, h, weight, i, n, sm, w). nat (1 - i),
                            \<lambda>(run, c, q, h, weight, i, n, sm, w). nat (n - i)]")
     (auto split: if_splits)


text \<open>
  \<open>skynet_context_message_dispatch\<close>: one scheduling turn of a worker.  The argument
  \<open>qo\<close> is the mailbox the worker holds (\<open>None\<close> is \<open>NULL\<close>); the result is the
  mailbox it holds afterwards, with the worker's monitor and the process state.
\<close>

definition skynet_context_message_dispatch ::
    "handler \<Rightarrow> skynet_monitor \<Rightarrow> nat option \<Rightarrow> int \<Rightarrow> world
     \<Rightarrow> (nat option \<times> skynet_monitor \<times> world) option" where
  "skynet_context_message_dispatch run sm qo weight w = do {
     (qo1, w1) \<leftarrow> (case qo of None \<Rightarrow> skynet_globalmq_pop w | Some q \<Rightarrow> Some (Some q, w));
     (case qo1 of
        None \<Rightarrow> Some (None, sm, w1)
      | Some q \<Rightarrow> do {
          mq \<leftarrow> mqs w1 q;
          let h = skynet_mq_handle mq;
          (co, w2) \<leftarrow> skynet_handle_grab h w1;
          (case co of
             None \<Rightarrow> do {
               w3 \<leftarrow> skynet_mq_release q h w2;
               (nq, w4) \<leftarrow> skynet_globalmq_pop w3;
               Some (nq, sm, w4)
             }
           | Some c \<Rightarrow> do {
               (r, sm1, w3) \<leftarrow> dispatch_loop run c q h weight 0 1 sm w2;
               (case r of
                  Inl nq \<Rightarrow> Some (nq, sm1, w3)
                | Inr u \<Rightarrow> do {
                    ctx \<leftarrow> ctxs w3 c;
                    c_assert (q = ctx_queue ctx);
                    (nqo, w4) \<leftarrow> skynet_globalmq_pop w3;
                    (q1, w5) \<leftarrow> (case nqo of
                                    Some nq \<Rightarrow> do { w5 \<leftarrow> skynet_globalmq_push q w4;
                                                   Some (nq, w5) }
                                  | None \<Rightarrow> Some (q, w4));
                    (r1, w6) \<leftarrow> skynet_context_release c w5;
                    Some (Some q1, sm1, w6)
                  })
             })
        })
   }"

text \<open>
  \<open>cmd_stat\<close>.  \<open>fmt_lf\<close> stands for \<open>sprintf\<close> with \<open>"%lf"\<close> of a count of
  microseconds divided by \<open>1000000.0\<close>; the function returns \<open>context->result\<close>.
\<close>

definition cmd_stat :: "(64 word \<Rightarrow> string) \<Rightarrow> nat \<Rightarrow> string \<Rightarrow> world \<Rightarrow> (string \<times> world) option" where
  "cmd_stat fmt_lf c param w = do {
     ctx \<leftarrow> ctxs w c;
     ctx1 \<leftarrow>
       (if strcmp param ''mqlen'' = 0 then do {
          q \<leftarrow> mqs w (ctx_queue ctx);
          Some (ctx\<lparr>result := fmt_d (int (skynet_mq_length q))\<rparr>)
        } else if strcmp param ''endless'' = 0 then
          (if endless ctx then Some (ctx\<lparr>result := ''1'', endless := False\<rparr>)
           else Some (ctx\<lparr>result := ''0''\<rparr>))
        else if strcmp param ''cpu'' = 0 then
          Some (ctx\<lparr>result := fmt_lf (cpu_cost ctx)\<rparr>)
        else if strcmp param ''time'' = 0 then
          (if profile ctx then Some (ctx\<lparr>result := fmt_lf (thread_time w - cpu_start ctx)\<rparr>)
           else Some (ctx\<lparr>result := ''0''\<rparr>))
        else if strcmp param ''message'' = 0 then
          Some (ctx\<lparr>result := fmt_u (unat (message_count ctx))\<rparr>)
        else Some (ctx\<lparr>result := []\<rparr>));
     Some (result ctx1, w\<lparr>ctxs := (ctxs w)(c \<mapsto> ctx1)\<rparr>)
   }"

section \<open>Timing wheel (skynet_timer.c)\<close>

definition TIME_NEAR_SHIFT :: nat where "TIME_NEAR_SHIFT = 8"
definition TIME_NEAR :: "32 word" where "TIME_NEAR = push_bit TIME_NEAR_SHIFT 1"
definition TIME_LEVEL_SHIFT :: nat where "TIME_LEVEL_SHIFT = 6"
definition TIME_LEVEL :: "32 word" where "TIME_LEVEL = push_bit TIME_LEVEL_SHIFT 1"
definition TIME_NEAR_MASK :: "32 word" where "TIME_NEAR_MASK = TIME_NEAR - 1"
definition TIME_LEVEL_MASK :: "32 word" where "TIME_LEVEL_MASK = TIME_LEVEL - 1"

text \<open>
  A \<open>timer_node\<close> with the \<open>timer_event\<close> stored behind it.  A \<open>link_list\<close> is the list
  of its nodes, first to last.  The wheels are arrays indexed by slot; every index
  the code computes is masked into range.
\<close>

record timer_node =
  expire :: "32 word"
  ev_handle :: "32 word"
  ev_session :: "32 word"

record timer =
  near :: "nat \<Rightarrow> timer_node list"
  t :: "nat \<Rightarrow> nat \<Rightarrow> timer_node list"
  time :: "32 word"

definition timer_create_timer :: timer where
  "timer_create_timer = \<lparr>near = (\<lambda>i. []), t = (\<lambda>i j. []), time = 0\<rparr>"

text \<open>
  The level search of \<open>add_node\<close>: the \<open>for\<close> loop over \<open>i < 3\<close> with its \<open>break\<close>;
  the result is the value of \<open>i\<close> after the loop.
\<close>

function add_node_level :: "32 word \<Rightarrow> 32 word \<Rightarrow> nat \<Rightarrow> 32 word \<Rightarrow> nat" where
  "add_node_level tm current_time i msk =
     (if i < 3 then
        (if tm OR (msk - 1) = current_time OR (msk - 1) then i
         else add_node_level tm current_time (i + 1) (push_bit TIME_LEVEL_SHIFT msk))
      else i)"
  by pat_completeness auto
termination
  by (relation "measure (\<lambda>(tm, current_time, i, msk). 3 - i)") auto

text \<open>Where \<open>add_node\<close> links a node: a slot of the near wheel or of a cascade level.\<close>

datatype wheel_slot = Near nat | Level nat nat

definition add_node_slot :: "32 word \<Rightarrow> 32 word \<Rightarrow> wheel_slot" where
  "add_node_slot tm current_time =
     (if tm OR TIME_NEAR_MASK = current_time OR TIME_NEAR_MASK
      then Near (unat (tm AND TIME_NEAR_MASK))
      else (let i = add_node_level tm current_time 0 (push_bit TIME_LEVEL_SHIFT TIME_NEAR)
            in Level i (unat (drop_bit (TIME_NEAR_SHIFT + i * TIME_LEVEL_SHIFT) tm
                              AND TIME_LEVEL_MASK))))"

definition link_node :: "timer \<Rightarrow> wheel_slot \<Rightarrow> timer_node \<Rightarrow> timer" where
  "link_node T s node =
     (case s of
        Near j \<Rightarrow> T\<lparr>near := (near T)(j := near T j @ [node])\<rparr>
      | Level i j \<Rightarrow> T\<lparr>t := (t T)(i := (t T i)(j := t T i j @ [node]))\<rparr>)"

definition add_node :: "timer \<Rightarrow> timer_node \<Rightarrow> timer" where
  "add_node T node = link_node T (add_node_slot (expire node) (time T)) node"

text \<open>\<open>timer_add\<close>: the C \<open>int time\<close> is added to the \<open>uint32_t\<close> tick with wrap-around.\<close>

definition timer_add :: "timer \<Rightarrow> 32 word \<Rightarrow> 32 word \<Rightarrow> int \<Rightarrow> timer" where
  "timer_add T h sess tm =
     add_node T \<lparr>expire = of_int tm + time T, ev_handle = h, ev_session = sess\<rparr>"












section \<open>Socket event registration (socket_server.c, socket_epoll.h)\<close>

text \<open>
  The fields of \<open>struct socket\<close> that \<open>enable_write\<close> and \<open>enable_read\<close> use.  The
  operating system is the log of \<open>epoll_ctl\<close> calls made so far and the results the
  coming calls will return (0 when the list is empty).
\<close>

record socket =
  fd :: int
  reading :: bool
  writing :: bool

record epoll_call =
  call_efd :: int
  call_sock :: int
  call_in :: bool
  call_out :: bool

record os_state =
  epoll_log :: "epoll_call list"
  epoll_ret :: "int list"

definition sp_enable :: "int \<Rightarrow> int \<Rightarrow> bool \<Rightarrow> bool \<Rightarrow> os_state \<Rightarrow> int \<times> os_state" where
  "sp_enable efd sock read_enable write_enable os =
     (let r = (case epoll_ret os of [] \<Rightarrow> 0 | x # xs \<Rightarrow> x);
          os1 = os\<lparr>epoll_log := epoll_log os @
                     [\<lparr>call_efd = efd, call_sock = sock,
                       call_in = read_enable, call_out = write_enable\<rparr>],
                   epoll_ret := tl (epoll_ret os)\<rparr>
      in (if r = - 1 then 1 else 0, os1))"

definition enable_write :: "int \<Rightarrow> socket \<Rightarrow> bool \<Rightarrow> os_state \<Rightarrow> int \<times> socket \<times> os_state" where
  "enable_write event_fd s enable os =
     (if writing s \<noteq> enable then
        (let s1 = s\<lparr>writing := enable\<rparr>;
             (r, os1) = sp_enable event_fd (fd s1) (reading s1) enable os
         in (r, s1, os1))
      else (0, s, os))"

definition enable_read :: "int \<Rightarrow> socket \<Rightarrow> bool \<Rightarrow> os_state \<Rightarrow> int \<times> socket \<times> os_state" where
  "enable_read event_fd s enable os =
     (if reading s \<noteq> enable then
        (let s1 = s\<lparr>reading := enable\<rparr>;
             (r, os1) = sp_enable event_fd (fd s1) enable (writing s1) os
         in (r, s1, os1))
      else (0, s, os))"

section \<open>Well-formedness and example states\<close>

text \<open>
  The global run queue as \<open>skynet_globalmq_push\<close> needs it: the tail pointer is a
  live mailbox, and a mailbox that is not in the global queue (\<open>in_global = 0\<close>) is
  not linked.
\<close>

definition runq_wf :: "world \<Rightarrow> bool" where
  "runq_wf w = ((\<forall>tl. Q_tail w = Some tl \<longrightarrow> tl \<in> dom (mqs w))
               \<and> (\<forall>p q. mqs w p = Some q \<and> in_global q = 0 \<longrightarrow> qnext q = None))"

text \<open>A mailbox of 64 slots holding 63 messages, in a process state with nothing else.\<close>

definition example_mq :: message_queue where
  "example_mq = (skynet_mq_create 1)\<lparr>tail := 63\<rparr>"


definition empty_storage :: handle_storage where
  "empty_storage = \<lparr>harbor = 0, handle_index = 1, slot_size = 4,
     slot = [None, None, None, None], name_cap = 2, name = []\<rparr>"

definition example_world :: world where
  "example_world = \<lparr>mqs = [0 \<mapsto> example_mq], ctxs = Map.empty, Q_head = None, Q_tail = None,
     H = empty_storage, G_total = 0, handle_key = 0, HARBOR = 0, REMOTE = None, logger = 0,
     thread_time = 0, log_out = []\<rparr>"

text \<open>
  The messages a mailbox of the process state holds, and the context that
  \<open>skynet_handle_grab\<close> finds for a handle (the lookup alone, no reference taken).
\<close>

definition mailbox :: "world \<Rightarrow> nat \<Rightarrow> skynet_message list" where
  "mailbox w p = (case mqs w p of None \<Rightarrow> [] | Some q \<Rightarrow> mq_contents q)"

definition find_ctx :: "world \<Rightarrow> 32 word \<Rightarrow> nat option" where
  "find_ctx w h =
     (case slot (H w) ! unat (h AND (of_nat (slot_size (H w)) - 1)) of
        None \<Rightarrow> None
      | Some c \<Rightarrow> (case ctxs w c of
                     None \<Rightarrow> None
                   | Some ctx \<Rightarrow> if handle ctx = h then Some c else None))"

text \<open>
  The process state as the registry and the run queue keep it: the hash of every
  handle is inside the slot array, a registered context is live, holds the
  registry's reference and has a live mailbox, and every mailbox is a well-formed
  ring.
\<close>

definition world_wf :: "world \<Rightarrow> bool" where
  "world_wf w = (runq_wf w
     \<and> (\<forall>h :: 32 word. unat (h AND (of_nat (slot_size (H w)) - 1)) < length (slot (H w)))
     \<and> (\<forall>c. Some c \<in> set (slot (H w)) \<longrightarrow>
           (\<exists>ctx q. ctxs w c = Some ctx \<and> 1 \<le> ref ctx \<and> mqs w (ctx_queue ctx) = Some q))
     \<and> (\<forall>p q. mqs w p = Some q \<longrightarrow> mq_wf q))"

text \<open>The message that \<open>skynet_error\<close> pushes to the logger for a formatted line.\<close>

definition text_message :: "32 word \<Rightarrow> string \<Rightarrow> skynet_message" where
  "text_message src line =
     \<lparr>source = src, session = 0, data = Some (Bytes (map of_char line)),
      sz = of_nat (length line) OR push_bit MESSAGE_TYPE_SHIFT (of_int PTYPE_TEXT)\<rparr>"

text \<open>
  \<open>delivered w w' p m\<close>: from \<open>w\<close> to \<open>w'\<close> the mailbox at \<open>p\<close> has received \<open>m\<close> and
  nothing else has happened to the mailboxes, the contexts and the registry.
  \<open>quiet w w'\<close>: no mailbox has received anything.
\<close>

definition delivered :: "world \<Rightarrow> world \<Rightarrow> nat \<Rightarrow> skynet_message \<Rightarrow> bool" where
  "delivered w w' p m = (mailbox w' p = mailbox w p @ [m]
     \<and> (\<forall>p'. p' \<noteq> p \<longrightarrow> mailbox w' p' = mailbox w p')
     \<and> ctxs w' = ctxs w \<and> H w' = H w)"

definition quiet :: "world \<Rightarrow> world \<Rightarrow> bool" where
  "quiet w w' = ((\<forall>p. mailbox w' p = mailbox w p) \<and> ctxs w' = ctxs w \<and> H w' = H w)"

text \<open>
  A service with handle 1 whose mailbox holds the messages from slot \<open>pos\<close> to slot
  \<open>len\<close>, in a process state with nothing else; \<open>cnt\<close> is its message count, \<open>refc\<close>
  its reference count and \<open>hk\<close> the thread's current handle.  Its handler does
  nothing.
\<close>

definition idle_handler :: handler where
  "idle_handler f c type sess src dat sz0 w = Some (0, w)"

definition turn_queue :: "nat \<Rightarrow> nat \<Rightarrow> message_queue" where
  "turn_queue len pos = (skynet_mq_create 1)\<lparr>head := pos, tail := len\<rparr>"

definition turn_context :: "64 word \<Rightarrow> int \<Rightarrow> skynet_context" where
  "turn_context cnt refc = \<lparr>handle = 1, cb = Some 0, ctx_queue = 0, logfile = None,
     cpu_cost = 0, cpu_start = 0, result = [], session_id = 0, ref = refc,
     message_count = cnt, init = True, endless = False, profile = False\<rparr>"

definition turn_world :: "nat \<Rightarrow> nat \<Rightarrow> 64 word \<Rightarrow> int \<Rightarrow> 32 word \<Rightarrow> world" where
  "turn_world len pos cnt refc hk =
     \<lparr>mqs = [0 \<mapsto> turn_queue len pos], ctxs = [0 \<mapsto> turn_context cnt refc],
      Q_head = None, Q_tail = None,
      H = \<lparr>harbor = 0, handle_index = 2, slot_size = 4, slot = [None, Some 0, None, None],
           name_cap = 2, name = []\<rparr>,
      G_total = 1, handle_key = hk, HARBOR = 0, REMOTE = None, logger = 0, thread_time = 0,
      log_out = []\<rparr>"

text \<open>
  The nodes linked in a slot of the wheel, and the nodes linked anywhere in it.
\<close>

fun slot_nodes :: "timer \<Rightarrow> wheel_slot \<Rightarrow> timer_node list" where
  "slot_nodes T (Near j) = near T j"
| "slot_nodes T (Level i j) = t T i j"





text \<open>
  The name table as the binary searches need it: every name is a C string and the
  names are strictly increasing under \<open>strcmp\<close>.
\<close>

definition names_ok :: "(string \<times> 32 word) list \<Rightarrow> bool" where
  "names_ok ns = ((\<forall>e \<in> set ns. cstring (fst e))
                  \<and> sorted_wrt (\<lambda>a b. strcmp (fst a) (fst b) < 0) ns)"

definition example_names :: "(string \<times> 32 word) list" where
  "example_names = [(''gate'', 3), (''logger'', 2)]"

section \<open>Properties\<close>

subsection \<open>The mailbox ring\<close>


lemma mq_length_less_cap: "mq_wf q \<Longrightarrow> skynet_mq_length q < cap q"
  by (auto simp: mq_wf_def skynet_mq_length_def)






subsection \<open>Session numbers\<close>

text \<open>
  Claim C10.  \<open>skynet_context_newsession\<close> always returns a session number that is
  at least 1: the counter of the context is incremented by one and returned, and
  when the incremented value is not positive (the 32-bit increment wrapped) the
  counter is reset to 1 and 1 is returned.  Session 0 is never returned.
\<close>

theorem newsession_positive:
  "1 \<le> sint (fst (skynet_context_newsession ctx))
   \<and> session_id (snd (skynet_context_newsession ctx)) = fst (skynet_context_newsession ctx)
   \<and> fst (skynet_context_newsession ctx)
      = (if 0 < sint (session_id ctx + 1) then session_id ctx + 1 else 1)"
  by (simp add: skynet_context_newsession_def Let_def)

subsection \<open>Event registration\<close>

text \<open>
  Claim C9.  \<open>enable_write\<close> is deduplicated by the stored flag: of two calls in a
  row with the same flag, the second finds \<open>writing\<close> equal to the flag, returns 0
  and changes neither the socket nor the operating system, so that both calls
  together make at most one registration call.
\<close>

theorem enable_write_twice:
  "(let (r1, s1, os1) = enable_write efd s x os;
        (r2, s2, os2) = enable_write efd s1 x os1
    in writing s1 = x \<and> s2 = s1 \<and> os2 = os1 \<and> r2 = 0
       \<and> length (epoll_log os2) \<le> length (epoll_log os) + 1)"
  by (simp add: enable_write_def sp_enable_def Let_def split: prod.splits)

subsection \<open>Mailbox push\<close>








subsection \<open>Timing wheel: where a node is linked\<close>

lemma or_mask_eq_iff:
  fixes x y :: "'a::len word"
  shows "(x OR mask k = y OR mask k) \<longleftrightarrow> (drop_bit k x = drop_bit k y)"
proof
  assume a: "x OR mask k = y OR mask k"
  show "drop_bit k x = drop_bit k y"
  proof (rule bit_eqI)
    fix n
    have "bit (x OR mask k) (k + n) = bit (y OR mask k) (k + n)" using a by simp
    then show "bit (drop_bit k x) n = bit (drop_bit k y) n"
      by (simp add: bit_simps)
  qed
next
  assume a: "drop_bit k x = drop_bit k y"
  show "x OR mask k = y OR mask k"
  proof (rule bit_eqI)
    fix n
    show "bit (x OR mask k) n = bit (y OR mask k) n"
    proof (cases "n < k")
      case True
      then show ?thesis by (auto simp: bit_simps dest: bit_imp_le_length)
    next
      case False
      have "bit (drop_bit k x) (n - k) = bit (drop_bit k y) (n - k)" using a by simp
      then show ?thesis using False by (simp add: bit_simps)
    qed
  qed
qed

lemma wheel_masks:
  "(255::32 word) = mask 8" "(16383::32 word) = mask 14"
  "(1048575::32 word) = mask 20" "(67108863::32 word) = mask 26" "(63::32 word) = mask 6"
  by (simp_all add: mask_eq_exp_minus_1)

lemma add_node_slot_rule:
  "add_node_slot e T =
     (if drop_bit 8 e = drop_bit 8 T then Near (unat (e AND 255))
      else if drop_bit 14 e = drop_bit 14 T then Level 0 (unat (drop_bit 8 e AND 63))
      else if drop_bit 20 e = drop_bit 20 T then Level 1 (unat (drop_bit 14 e AND 63))
      else if drop_bit 26 e = drop_bit 26 T then Level 2 (unat (drop_bit 20 e AND 63))
      else Level 3 (unat (drop_bit 26 e AND 63)))"
proof -
  have a: "(e OR 255 = T OR 255) = (drop_bit 8 e = drop_bit 8 T)"
          "(e OR 16383 = T OR 16383) = (drop_bit 14 e = drop_bit 14 T)"
          "(e OR 1048575 = T OR 1048575) = (drop_bit 20 e = drop_bit 20 T)"
          "(e OR 67108863 = T OR 67108863) = (drop_bit 26 e = drop_bit 26 T)"
    unfolding wheel_masks by (rule or_mask_eq_iff)+
  show ?thesis
    by (simp add: add_node_slot_def TIME_NEAR_MASK_def TIME_NEAR_def TIME_NEAR_SHIFT_def
        TIME_LEVEL_SHIFT_def TIME_LEVEL_MASK_def TIME_LEVEL_def Let_def a)
qed

lemma add_low14_mask:
  fixes T :: "32 word"
  assumes "T AND mask 14 = 0"
  shows "drop_bit 14 (T + mask 14) = drop_bit 14 T"
    and "drop_bit 8 (T + mask 14) \<noteq> drop_bit 8 T"
    and "drop_bit 8 (T + mask 14) AND mask 6 = mask 6"
proof -
  have nb: "\<And>n. n < 14 \<Longrightarrow> \<not> bit T n"
  proof
    fix n assume "n < 14" "bit T n"
    then have "bit (T AND mask 14) n" by (simp add: bit_simps)
    then show False using assms by simp
  qed
  have e: "T + mask 14 = T OR mask 14"
    by (rule disjunctive_add) (use nb in \<open>auto simp: bit_simps\<close>)
  show "drop_bit 14 (T + mask 14) = drop_bit 14 T"
    unfolding e by (rule bit_eqI) (simp add: bit_simps)
  have "bit (drop_bit 8 (T OR mask 14)) 0" by (simp add: bit_simps)
  moreover have "\<not> bit (drop_bit 8 T) 0" using nb [of 8] by (simp add: bit_simps)
  ultimately show "drop_bit 8 (T + mask 14) \<noteq> drop_bit 8 T" unfolding e by metis
  show "drop_bit 8 (T + mask 14) AND mask 6 = mask 6"
    unfolding e by (rule bit_eqI) (auto simp: bit_simps)
qed

lemma add_clear_bit:
  fixes T :: "32 word"
  assumes "\<not> bit T k" "k < 32"
  shows "drop_bit (k + 6) (T + push_bit k 1) = drop_bit (k + 6) T"
    and "drop_bit k (T + push_bit k 1) \<noteq> drop_bit k T"
proof -
  have e: "T + push_bit k 1 = T OR push_bit k 1"
    by (rule disjunctive_add) (use assms in \<open>auto simp: bit_simps\<close>)
  show "drop_bit (k + 6) (T + push_bit k 1) = drop_bit (k + 6) T"
    unfolding e by (rule bit_eqI) (simp add: bit_simps)
  have "bit (drop_bit k (T OR push_bit k 1)) 0" using assms by (simp add: bit_simps)
  moreover have "\<not> bit (drop_bit k T) 0" using assms by (simp add: bit_simps)
  ultimately show "drop_bit k (T + push_bit k 1) \<noteq> drop_bit k T" unfolding e by metis
qed

lemma slot_delay_16383:
  assumes "T AND 16383 = 0"
  shows "add_node_slot (T + 16383) T = Level 0 63"
proof -
  have z: "T AND mask 14 = 0" using assms by (simp add: wheel_masks [symmetric])
  have "drop_bit 14 (T + 16383) = drop_bit 14 T" "drop_bit 8 (T + 16383) \<noteq> drop_bit 8 T"
       "drop_bit 8 (T + 16383) AND 63 = 63"
    using add_low14_mask [OF z] by (simp_all add: wheel_masks [symmetric])
  then show ?thesis by (simp add: add_node_slot_rule)
qed

lemma slot_delay_16384:
  assumes "\<not> bit T 14"
  shows "add_node_slot (T + 16384) T = Level 1 (unat (drop_bit 14 (T + 16384) AND 63))"
proof -
  have "drop_bit 20 (T + 16384) = drop_bit 20 T" "drop_bit 14 (T + 16384) \<noteq> drop_bit 14 T"
    using add_clear_bit [OF assms, simplified] by simp_all
  moreover have "drop_bit 8 (T + 16384) \<noteq> drop_bit 8 T"
  proof
    assume "drop_bit 8 (T + 16384) = drop_bit 8 T"
    then have "drop_bit 6 (drop_bit 8 (T + 16384)) = drop_bit 6 (drop_bit 8 T)" by simp
    then show False using \<open>drop_bit 14 (T + 16384) \<noteq> drop_bit 14 T\<close> by simp
  qed
  ultimately show ?thesis by (simp add: add_node_slot_rule)
qed

lemma drop_bit_push_add:
  fixes a b :: "32 word"
  shows "drop_bit n (push_bit n a + take_bit n b) = take_bit (32 - n) a"
proof -
  have e: "push_bit n a + take_bit n b = push_bit n a OR take_bit n b"
    by (rule disjunctive_add) (auto simp: bit_simps)
  show ?thesis
    unfolding e by (rule bit_eqI) (auto simp: bit_simps)
qed

lemma take_bit_self:
  fixes x :: "32 word"
  shows "x < 2 ^ n \<Longrightarrow> take_bit n x = x"
  by (simp add: take_bit_eq_mask less_mask_eq)

lemma take_bit_less:
  fixes x :: "32 word"
  shows "n < 32 \<Longrightarrow> take_bit n x < 2 ^ n"
  by (simp add: take_bit_eq_mask and_mask_less_size word_size)

lemma suc_mod_64:
  fixes u :: nat
  shows "(Suc u div 64 = u div 64) = (u mod 64 \<noteq> 63)"
  by (simp add: div_Suc mod_Suc)

lemma next_block_cases:
  fixes U :: "32 word"
  assumes "U < 2 ^ 18"
  shows "U = 2 ^ 18 - 1 \<or> (take_bit 18 (U + 1) = U + 1 \<and> unat (U + 1) = Suc (unat U))"
proof (cases "U + 1 = 2 ^ 18")
  case True
  then show ?thesis by (simp add: eq_diff_eq)
next
  case False
  have u: "unat U < 2 ^ 18" using assms by (simp add: word_less_nat_alt)
  have u1: "unat (U + 1) = Suc (unat U)"
  proof -
    have "1 + U \<noteq> 0"
    proof
      assume "1 + U = 0"
      then have "U = - 1" by (simp add: add_eq_0_iff)
      then show False using assms by simp
    qed
    from unatSuc [OF this] show ?thesis by (simp add: add.commute)
  qed
  have "unat (U + 1) \<noteq> 2 ^ 18"
  proof
    assume "unat (U + 1) = 2 ^ 18"
    then have "unat (U + 1) = unat (2 ^ 18 :: 32 word)" by simp
    then show False using False by (simp only: word_unat_eq_iff [symmetric])
  qed
  then have "unat (U + 1) < 2 ^ 18" using u u1 by simp
  then have "U + 1 < 2 ^ 18" by (simp add: word_less_nat_alt)
  then have "take_bit 18 (U + 1) = U + 1" by (rule take_bit_self)
  then show ?thesis using u1 by simp
qed

lemma next_block:
  fixes U :: "32 word"
  assumes "U < 2 ^ 18"
  shows "take_bit 18 (U + 1) \<noteq> U"
    and "(drop_bit 6 (take_bit 18 (U + 1)) = drop_bit 6 U) = (U AND 63 \<noteq> 63)"
proof -
  have m63: "(U AND 63 \<noteq> 63) = (unat U mod 64 \<noteq> 63)"
  proof -
    have "U AND 63 = take_bit 6 U"
      by (simp only: wheel_masks take_bit_eq_mask)
    then have "unat (U AND 63) = unat U mod 64"
      by (simp add: take_bit_eq_mod unat_mod)
    then show ?thesis by (simp add: word_unat_eq_iff)
  qed
  from next_block_cases [OF assms]
  show "take_bit 18 (U + 1) \<noteq> U"
  proof
    assume "U = 2 ^ 18 - 1"
    then show ?thesis by simp
  next
    assume "take_bit 18 (U + 1) = U + 1 \<and> unat (U + 1) = Suc (unat U)"
    then show ?thesis by simp
  qed
  from next_block_cases [OF assms]
  show "(drop_bit 6 (take_bit 18 (U + 1)) = drop_bit 6 U) = (U AND 63 \<noteq> 63)"
  proof
    assume "U = 2 ^ 18 - 1"
    then show ?thesis by simp
  next
    assume a: "take_bit 18 (U + 1) = U + 1 \<and> unat (U + 1) = Suc (unat U)"
    then have "(drop_bit 6 (U + 1) = drop_bit 6 U) = (Suc (unat U) div 64 = unat U div 64)"
      by (simp add: word_unat_eq_iff drop_bit_eq_div unat_div)
    then show ?thesis
      using a unfolding m63 by (simp only: suc_mod_64)
  qed
qed

lemma drop_bit_14_less:
  fixes T :: "32 word"
  shows "drop_bit 14 T < 2 ^ 18"
proof -
  have "unat (drop_bit 14 T) = unat T div 2 ^ 14"
    by (simp add: drop_bit_eq_div unat_div)
  moreover have "unat T < 2 ^ 32" using unsigned_less [of T] by simp
  ultimately have "unat (drop_bit 14 T) < 2 ^ 18"
    by (simp add: less_mult_imp_div_less)
  then show ?thesis by (simp add: word_less_nat_alt)
qed

lemma add_16384_split:
  fixes T :: "32 word"
  shows "drop_bit 14 (T + 16384) = take_bit 18 (drop_bit 14 T + 1)"
proof -
  have "T + 16384 = (push_bit 14 (drop_bit 14 T) + take_bit 14 T) + push_bit 14 1"
    by (simp only: bits_ident) simp
  also have "\<dots> = push_bit 14 (drop_bit 14 T + 1) + take_bit 14 T"
    by (simp add: push_bit_add)
  finally show ?thesis using drop_bit_push_add [of 14 "drop_bit 14 T + 1" T] by simp
qed

lemma add_16383_split:
  fixes T :: "32 word"
  assumes "T AND 16383 \<noteq> 0"
  shows "drop_bit 14 (T + 16383) = take_bit 18 (drop_bit 14 T + 1)"
proof -
  define L where "L = take_bit 14 T"
  have L0: "L \<noteq> 0" using assms unfolding L_def
    by (simp only: wheel_masks take_bit_eq_mask not_False_eq_True)
  have Ll: "L < 2 ^ 14" unfolding L_def by (rule take_bit_less) simp
  have "unat (L - 1) = unat L - 1" using L0 by (simp add: unat_minus_one)
  moreover have "unat L < 2 ^ 14" using Ll by (simp add: word_less_nat_alt)
  ultimately have "unat (L - 1) < 2 ^ 14" by simp
  then have "L - 1 < 2 ^ 14" by (simp add: word_less_nat_alt)
  then have tb: "take_bit 14 (L - 1) = L - 1" by (rule take_bit_self)
  have "T + 16383 = (push_bit 14 (drop_bit 14 T) + L) + (push_bit 14 1 - 1)"
    unfolding L_def by (simp only: bits_ident) simp
  also have "\<dots> = push_bit 14 (drop_bit 14 T + 1) + (L - 1)"
    by (simp add: push_bit_add)
  finally have "T + 16383 = push_bit 14 (drop_bit 14 T + 1) + take_bit 14 (L - 1)"
    by (simp only: tb)
  then show ?thesis using drop_bit_push_add [of 14 "drop_bit 14 T + 1" "L - 1"] by simp
qed

lemma delay_16383_level:
  "(\<exists>j. add_node_slot (T + 16383) T = Level 0 j) = (T AND 16383 = 0)"
proof (cases "T AND 16383 = 0")
  case True
  then show ?thesis using slot_delay_16383 by simp
next
  case False
  have "drop_bit 14 (T + 16383) \<noteq> drop_bit 14 T"
    unfolding add_16383_split [OF False]
    using next_block(1) [OF drop_bit_14_less [of T]] .
  moreover have "drop_bit 8 (T + 16383) \<noteq> drop_bit 8 T"
  proof
    assume "drop_bit 8 (T + 16383) = drop_bit 8 T"
    then have "drop_bit 6 (drop_bit 8 (T + 16383)) = drop_bit 6 (drop_bit 8 T)" by simp
    then show False using \<open>drop_bit 14 (T + 16383) \<noteq> drop_bit 14 T\<close> by simp
  qed
  ultimately show ?thesis using False by (simp add: add_node_slot_rule)
qed

lemma delay_16384_level:
  "(\<exists>j. add_node_slot (T + 16384) T = Level 1 j) = (drop_bit 14 T AND 63 \<noteq> 63)"
proof -
  have a: "drop_bit 14 (T + 16384) \<noteq> drop_bit 14 T"
    unfolding add_16384_split using next_block(1) [OF drop_bit_14_less [of T]] .
  have b: "drop_bit 8 (T + 16384) \<noteq> drop_bit 8 T"
  proof
    assume "drop_bit 8 (T + 16384) = drop_bit 8 T"
    then have "drop_bit 6 (drop_bit 8 (T + 16384)) = drop_bit 6 (drop_bit 8 T)" by simp
    then show False using a by simp
  qed
  have "drop_bit 20 (T + 16384) = drop_bit 6 (drop_bit 14 (T + 16384))"
       "drop_bit 20 T = drop_bit 6 (drop_bit 14 T)"
    by simp_all
  then have c: "(drop_bit 20 (T + 16384) = drop_bit 20 T) = (drop_bit 14 T AND 63 \<noteq> 63)"
    unfolding add_16384_split using next_block(2) [OF drop_bit_14_less [of T]] by simp
  show ?thesis using a b c by (simp add: add_node_slot_rule)
qed

text \<open>
  Claim C4, as amended.  The code's \<open>t[i]\<close> is the spec's cascade level \<open>i + 1\<close>, so
  \<open>Level 0\<close> is level 1 and \<open>Level 1\<close> is level 2.  \<open>add_node\<close> links a node in the
  near wheel iff its expiry and the current tick agree above their low 8 bits, and
  otherwise in the first level \<open>L\<close> at which they agree above their low \<open>8 + 6 L\<close> bits
  (level 4 when they agree nowhere).  Hence a delay of \<open>2^14 - 1\<close> lands in level 1
  exactly when the low 14 bits of the base tick are zero, and a delay of \<open>2^14\<close>
  lands in level 2 exactly when bits 14 to 19 of the base tick are not all ones.
\<close>

theorem add_node_cascade_rule:
  "add_node W node = link_node W
     (if drop_bit 8 (expire node) = drop_bit 8 (time W)
      then Near (unat (expire node AND 255))
      else if drop_bit 14 (expire node) = drop_bit 14 (time W)
      then Level 0 (unat (drop_bit 8 (expire node) AND 63))
      else if drop_bit 20 (expire node) = drop_bit 20 (time W)
      then Level 1 (unat (drop_bit 14 (expire node) AND 63))
      else if drop_bit 26 (expire node) = drop_bit 26 (time W)
      then Level 2 (unat (drop_bit 20 (expire node) AND 63))
      else Level 3 (unat (drop_bit 26 (expire node) AND 63))) node
   \<and> timer_add W h s d = link_node W (add_node_slot (time W + of_int d) (time W))
        \<lparr>expire = time W + of_int d, ev_handle = h, ev_session = s\<rparr>
   \<and> ((\<exists>j. add_node_slot (time W + (2 ^ 14 - 1)) (time W) = Level 0 j)
        = (time W AND 16383 = 0))
   \<and> ((\<exists>j. add_node_slot (time W + 2 ^ 14) (time W) = Level 1 j)
        = (drop_bit 14 (time W) AND 63 \<noteq> 63))
   \<and> (time W AND 16383 = 0 \<longrightarrow>
        timer_add W h s (2 ^ 14 - 1) = link_node W (Level 0 63)
          \<lparr>expire = time W + 16383, ev_handle = h, ev_session = s\<rparr>)
   \<and> (drop_bit 14 (time W) AND 63 \<noteq> 63 \<longrightarrow>
        (\<exists>j. timer_add W h s (2 ^ 14) = link_node W (Level 1 j)
          \<lparr>expire = time W + 16384, ev_handle = h, ev_session = s\<rparr>))"
proof (intro conjI impI)
  show "add_node W node = link_node W
     (if drop_bit 8 (expire node) = drop_bit 8 (time W)
      then Near (unat (expire node AND 255))
      else if drop_bit 14 (expire node) = drop_bit 14 (time W)
      then Level 0 (unat (drop_bit 8 (expire node) AND 63))
      else if drop_bit 20 (expire node) = drop_bit 20 (time W)
      then Level 1 (unat (drop_bit 14 (expire node) AND 63))
      else if drop_bit 26 (expire node) = drop_bit 26 (time W)
      then Level 2 (unat (drop_bit 20 (expire node) AND 63))
      else Level 3 (unat (drop_bit 26 (expire node) AND 63))) node"
    unfolding add_node_def by (subst add_node_slot_rule) (rule refl)
next
  show "timer_add W h s d = link_node W (add_node_slot (time W + of_int d) (time W))
        \<lparr>expire = time W + of_int d, ev_handle = h, ev_session = s\<rparr>"
    by (simp add: timer_add_def add_node_def add.commute)
next
  show "(\<exists>j. add_node_slot (time W + (2 ^ 14 - 1)) (time W) = Level 0 j)
        = (time W AND 16383 = 0)"
    using delay_16383_level [of "time W"] by simp
next
  show "(\<exists>j. add_node_slot (time W + 2 ^ 14) (time W) = Level 1 j)
        = (drop_bit 14 (time W) AND 63 \<noteq> 63)"
    using delay_16384_level [of "time W"] by simp
next
  assume "time W AND 16383 = 0"
  then show "timer_add W h s (2 ^ 14 - 1) = link_node W (Level 0 63)
          \<lparr>expire = time W + 16383, ev_handle = h, ev_session = s\<rparr>"
    by (simp add: timer_add_def add_node_def slot_delay_16383 add.commute [of 16383])
next
  assume "drop_bit 14 (time W) AND 63 \<noteq> 63"
  then obtain j where "add_node_slot (time W + 16384) (time W) = Level 1 j"
    using delay_16384_level [of "time W"] by auto
  then show "\<exists>j. timer_add W h s (2 ^ 14) = link_node W (Level 1 j)
          \<lparr>expire = time W + 16384, ev_handle = h, ev_session = s\<rparr>"
    by (auto simp add: timer_add_def add_node_def add.commute [of 16384])
qed

theorem add_node_cascade_rule_witness:
  "time timer_create_timer AND 16383 = 0
   \<and> timer_add timer_create_timer 7 9 (2 ^ 14 - 1) = link_node timer_create_timer (Level 0 63)
        \<lparr>expire = 16383, ev_handle = 7, ev_session = 9\<rparr>
   \<and> drop_bit 14 (time timer_create_timer) AND 63 \<noteq> 63
   \<and> (\<exists>j. timer_add timer_create_timer 7 9 (2 ^ 14) = link_node timer_create_timer (Level 1 j)
        \<lparr>expire = 16384, ev_handle = 7, ev_session = 9\<rparr>)"
  using add_node_cascade_rule [of timer_create_timer
          "\<lparr>expire = 0, ev_handle = 0, ev_session = 0\<rparr>" 7 9 0]
  by (simp add: timer_create_timer_def)

text \<open>
  The claim as stated fails in each of its parts: at base tick 1 a delay of
  \<open>2^14 - 1\<close> lands in \<open>t[1]\<close> (level 2); at base tick \<open>0xFC000\<close>, whose bits 14 to 19
  are all ones, a delay of \<open>2^14\<close> lands in \<open>t[2]\<close> (level 3); and at base tick 255 a
  delay of 1, which is less than 256, lands in \<open>t[0]\<close> (level 1) and not in the near
  wheel.
\<close>

theorem add_node_cascade_counterexample:
  "timer_add (timer_create_timer\<lparr>time := 1\<rparr>) 7 9 (2 ^ 14 - 1)
     = link_node (timer_create_timer\<lparr>time := 1\<rparr>) (Level 1 1)
         \<lparr>expire = 16384, ev_handle = 7, ev_session = 9\<rparr>
   \<and> timer_add (timer_create_timer\<lparr>time := 0xFC000\<rparr>) 7 9 (2 ^ 14)
     = link_node (timer_create_timer\<lparr>time := 0xFC000\<rparr>) (Level 2 1)
         \<lparr>expire = 0x100000, ev_handle = 7, ev_session = 9\<rparr>
   \<and> timer_add (timer_create_timer\<lparr>time := 255\<rparr>) 7 9 1
     = link_node (timer_create_timer\<lparr>time := 255\<rparr>) (Level 0 1)
         \<lparr>expire = 256, ev_handle = 7, ev_session = 9\<rparr>"
  by (simp add: timer_add_def add_node_def add_node_slot_rule timer_create_timer_def)

subsection \<open>Timing wheel: dispatch at the expiry tick\<close>


lemma unat_take_bit32: "unat (take_bit b (x::32 word)) = unat x mod 2 ^ b"
  unfolding unsigned_take_bit_eq by (rule take_bit_eq_mod)

lemma unat_drop_bit32: "unat (drop_bit b (x::32 word)) = unat x div 2 ^ b"
  unfolding unat_drop_bit_eq by (rule drop_bit_eq_div)


lemma suc_div_mod:
  fixes n m :: nat
  assumes "0 < m"
  shows "Suc n mod m \<noteq> 0 \<Longrightarrow> Suc n div m = n div m"
    and "Suc n mod m = 0 \<Longrightarrow> n mod m = m - 1"
  using assms by (auto simp add: mod_Suc div_Suc split: if_splits)

lemma tick_no_carry:
  fixes tm :: "32 word"
  assumes "take_bit b (tm + 1) \<noteq> 0"
  shows "drop_bit b (tm + 1) = drop_bit b tm"
proof -
  have ne: "1 + tm \<noteq> 0" using assms by (auto simp: add.commute)
  have u: "unat (tm + 1) = Suc (unat tm)"
    using unatSuc [OF ne] by (simp add: add.commute)
  have "unat (take_bit b (tm + 1)) \<noteq> 0" using assms by (simp only: unat_0_iff not_False_eq_True)
  then have "Suc (unat tm) mod 2 ^ b \<noteq> 0" by (simp add: unat_take_bit32 u)
  then have "Suc (unat tm) div 2 ^ b = unat tm div 2 ^ b"
    by (rule suc_div_mod(1) [rotated]) simp
  then show ?thesis by (simp add: word_unat_eq_iff unat_drop_bit32 u)
qed


lemma hi_mono:
  fixes e x :: "32 word"
  shows "drop_bit b e = drop_bit b x \<Longrightarrow> drop_bit (k + b) e = drop_bit (k + b) x"
  by (metis drop_bit_drop_bit)







lemma and255: "(x::32 word) AND 255 = take_bit 8 x"
proof -
  have "(255::32 word) = mask 8" by (simp add: mask_eq_exp_minus_1)
  then show ?thesis by (simp only: take_bit_eq_mask)
qed














lemma slot_nodes_clear_level:
  "slot_nodes (T\<lparr>t := (t T)(i := (t T i)(j := []))\<rparr>) sl =
     (if sl = Level i j then [] else slot_nodes T sl)"
  by (cases sl) simp_all




lemma hi_mono_le:
  fixes e x :: "32 word"
  assumes "drop_bit b e = drop_bit b x" "b \<le> b'"
  shows "drop_bit b' e = drop_bit b' x"
proof -
  have "drop_bit ((b' - b) + b) e = drop_bit ((b' - b) + b) x"
    using assms(1) by (rule hi_mono)
  then show ?thesis using assms(2) by simp
qed

lemma slot_same_block:
  fixes e tm :: "32 word"
  assumes "drop_bit 8 ct = drop_bit 8 tm"
  shows "add_node_slot e ct = add_node_slot e tm"
proof -
  have "drop_bit 14 ct = drop_bit 14 tm" "drop_bit 20 ct = drop_bit 20 tm"
    "drop_bit 26 ct = drop_bit 26 tm"
    using assms by (rule hi_mono_le, simp)+
  then show ?thesis using assms by (simp add: add_node_slot_rule)
qed

lemma slot_no_carry:
  fixes e tm :: "32 word"
  assumes "(tm + 1) AND 255 \<noteq> 0"
  shows "add_node_slot e (tm + 1) = add_node_slot e tm"
proof -
  have "take_bit 8 (tm + 1) \<noteq> 0" using assms by (simp only: and255 not_False_eq_True)
  then have "drop_bit 8 (tm + 1) = drop_bit 8 tm" by (rule tick_no_carry)
  then show ?thesis by (rule slot_same_block)
qed































subsection \<open>Registry names\<close>

declare findname_loop.simps [simp del] insert_name_loop.simps [simp del]

lemma of_char_zero_iff: "(of_char c :: nat) = 0 \<longleftrightarrow> c = CHR 0x00"
proof -
  have "(of_char c :: nat) = of_char (CHR 0x00) \<longleftrightarrow> c = CHR 0x00"
    by (rule of_char_eq_iff)
  then show ?thesis by simp
qed

lemma strcmp_less:
  "cstring a \<Longrightarrow> cstring b \<Longrightarrow> (strcmp a b < 0) = (a < b)"
proof (induction a b rule: strcmp.induct)
  case 1
  then show ?case by simp
next
  case (2 y ys)
  then have "(of_char y :: nat) \<noteq> 0" by (auto simp: cstring_def of_char_zero_iff)
  then show ?case by simp
next
  case (3 x xs)
  then show ?case by simp
next
  case (4 x xs y ys)
  then have "cstring xs" "cstring ys" by (simp_all add: cstring_def)
  with 4 show ?case
    by (auto simp: less_char_def)
qed

lemma strcmp_eq:
  "cstring a \<Longrightarrow> cstring b \<Longrightarrow> (strcmp a b = 0) = (a = b)"
proof (induction a b rule: strcmp.induct)
  case 1
  then show ?case by simp
next
  case (2 y ys)
  then have "(of_char y :: nat) \<noteq> 0" by (auto simp: cstring_def of_char_zero_iff)
  then show ?case by simp
next
  case (3 x xs)
  then have "(of_char x :: nat) \<noteq> 0" by (auto simp: cstring_def of_char_zero_iff)
  then show ?case by simp
next
  case (4 x xs y ys)
  then have "cstring xs" "cstring ys" by (simp_all add: cstring_def)
  with 4 show ?case by auto
qed

lemma names_ok_sorted:
  assumes "names_ok ns"
  shows "sorted_wrt (\<lambda>a b. fst a < fst b) ns"
proof -
  have s: "sorted_wrt (\<lambda>a b. strcmp (fst a) (fst b) < 0) ns"
    and c: "\<forall>e \<in> set ns. cstring (fst e)"
    using assms by (simp_all add: names_ok_def)
  show ?thesis
  proof (rule sorted_wrt_mono_rel [OF _ s])
    fix x y assume "x \<in> set ns" "y \<in> set ns" "strcmp (fst x) (fst y) < 0"
    then show "fst x < fst y" using c by (simp add: strcmp_less)
  qed
qed

lemma names_ok_nth_less:
  assumes "names_ok ns" "i < j" "j < length ns"
  shows "fst (ns ! i) < fst (ns ! j)"
  using names_ok_sorted [OF assms(1)] assms(2,3) by (simp add: sorted_wrt_iff_nth_less)

lemma names_ok_nth_le:
  assumes "names_ok ns" "i \<le> j" "j < length ns"
  shows "fst (ns ! i) \<le> fst (ns ! j)"
proof (cases "i = j")
  case True
  then show ?thesis by simp
next
  case False
  then show ?thesis using names_ok_nth_less [OF assms(1), of i j] assms(2,3) by simp
qed

lemma names_ok_cstring:
  "names_ok ns \<Longrightarrow> i < length ns \<Longrightarrow> cstring (fst (ns ! i))"
  by (simp add: names_ok_def)

lemma insert_name_loop_correct:
  assumes "names_ok ns" "cstring nm" "0 \<le> bgn" "en < int (length ns)" "bgn \<le> en + 1"
    and "\<forall>i < nat bgn. fst (ns ! i) < nm"
    and "\<forall>i < length ns. en < int i \<longrightarrow> nm < fst (ns ! i)"
  shows "(nm \<in> fst ` set ns \<longrightarrow> insert_name_loop ns nm bgn en = None)
       \<and> (nm \<notin> fst ` set ns \<longrightarrow>
            (\<exists>p \<le> length ns. insert_name_loop ns nm bgn en = Some (int p)
               \<and> (\<forall>i < p. fst (ns ! i) < nm) \<and> (\<forall>i < length ns. p \<le> i \<longrightarrow> nm < fst (ns ! i))))"
  using assms
proof (induction ns nm bgn en rule: insert_name_loop.induct)
  case (1 ns nm bgn en)
  show ?case
  proof (cases "bgn \<le> en")
    case False
    have out: "nm \<notin> fst ` set ns"
    proof
      assume "nm \<in> fst ` set ns"
      then obtain i where i: "i < length ns" "fst (ns ! i) = nm"
        by (auto simp: in_set_conv_nth)
      then have "i < nat bgn \<or> en < int i" using False by linarith
      then show False using i "1.prems"(6,7) by auto
    qed
    have p: "nat bgn \<le> length ns" using False "1.prems"(3,4,5) by linarith
    have "\<forall>i < length ns. nat bgn \<le> i \<longrightarrow> nm < fst (ns ! i)"
    proof (intro allI impI)
      fix i assume i: "i < length ns" "nat bgn \<le> i"
      then have "en < int i" using False by linarith
      then show "nm < fst (ns ! i)" using "1.prems"(7) i(1) by blast
    qed
    then show ?thesis
      using False out p "1.prems"(3,6)
      by (subst insert_name_loop.simps) (auto intro!: exI [of _ "nat bgn"])
  next
    case True
    define mid where "mid = (bgn + en) div 2"
    have m: "bgn \<le> mid" "mid \<le> en" "0 \<le> mid" "nat mid < length ns"
      using True "1.prems"(3,4) by (auto simp: mid_def)
    have cs: "cstring (fst (ns ! nat mid))" using "1.prems"(1) m(4) by (rule names_ok_cstring)
    consider (eq) "strcmp (fst (ns ! nat mid)) nm = 0"
      | (lt) "strcmp (fst (ns ! nat mid)) nm < 0"
      | (gt) "strcmp (fst (ns ! nat mid)) nm > 0"
      by linarith
    then show ?thesis
    proof cases
      case eq
      then have "fst (ns ! nat mid) = nm" using cs "1.prems"(2) by (simp add: strcmp_eq)
      then have "nm \<in> fst ` set ns" using m(4) by (metis imageI nth_mem)
      then show ?thesis
        using True eq by (subst insert_name_loop.simps) (simp add: mid_def Let_def)
    next
      case lt
      then have l: "fst (ns ! nat mid) < nm" using cs "1.prems"(2) by (simp add: strcmp_less)
      have a: "\<forall>i < nat (mid + 1). fst (ns ! i) < nm"
      proof (intro allI impI)
        fix i assume "i < nat (mid + 1)"
        then have "i \<le> nat mid" using m(3) by linarith
        from names_ok_nth_le [OF "1.prems"(1) this m(4)] l
        show "fst (ns ! i) < nm" by simp
      qed
      have ne: "strcmp (fst (ns ! nat mid)) nm \<noteq> 0" using lt by simp
      have "(nm \<in> fst ` set ns \<longrightarrow> insert_name_loop ns nm (mid + 1) en = None)
       \<and> (nm \<notin> fst ` set ns \<longrightarrow>
            (\<exists>p \<le> length ns. insert_name_loop ns nm (mid + 1) en = Some (int p)
               \<and> (\<forall>i < p. fst (ns ! i) < nm) \<and> (\<forall>i < length ns. p \<le> i \<longrightarrow> nm < fst (ns ! i))))"
        using "1.IH"(1) [OF True mid_def refl refl ne lt "1.prems"(1,2) _ "1.prems"(4) _ a "1.prems"(7)]
          m(2,3) by simp
      moreover have "insert_name_loop ns nm bgn en = insert_name_loop ns nm (mid + 1) en"
        using True lt by (subst insert_name_loop.simps) (simp add: mid_def Let_def)
      ultimately show ?thesis by simp
    next
      case gt
      have ge: "\<not> strcmp (fst (ns ! nat mid)) nm < 0" "strcmp (fst (ns ! nat mid)) nm \<noteq> 0"
        using gt by simp_all
      then have l: "nm < fst (ns ! nat mid)"
        using cs "1.prems"(2) by (simp add: strcmp_less strcmp_eq not_less le_less)
      have b: "\<forall>i < length ns. mid - 1 < int i \<longrightarrow> nm < fst (ns ! i)"
      proof (intro allI impI)
        fix i assume i: "i < length ns" "mid - 1 < int i"
        then have "nat mid \<le> i" by linarith
        from names_ok_nth_le [OF "1.prems"(1) this i(1)] l
        show "nm < fst (ns ! i)" by simp
      qed
      have e: "mid - 1 < int (length ns)" using m(4) by linarith
      have "(nm \<in> fst ` set ns \<longrightarrow> insert_name_loop ns nm bgn (mid - 1) = None)
       \<and> (nm \<notin> fst ` set ns \<longrightarrow>
            (\<exists>p \<le> length ns. insert_name_loop ns nm bgn (mid - 1) = Some (int p)
               \<and> (\<forall>i < p. fst (ns ! i) < nm) \<and> (\<forall>i < length ns. p \<le> i \<longrightarrow> nm < fst (ns ! i))))"
        using "1.IH"(2) [OF True mid_def refl refl ge(2) ge(1) "1.prems"(1,2,3) e _ "1.prems"(6) b]
          m(1) by simp
      moreover have "insert_name_loop ns nm bgn en = insert_name_loop ns nm bgn (mid - 1)"
        using True ge by (subst insert_name_loop.simps) (simp add: mid_def Let_def)
      ultimately show ?thesis by simp
    qed
  qed
qed
lemma names_ok_distinct:
  assumes "names_ok ns"
  shows "distinct (map fst ns)"
proof -
  have "sorted_wrt (<) (map fst ns)"
    using names_ok_sorted [OF assms] by (simp add: sorted_wrt_map)
  then show ?thesis by (simp add: strict_sorted_iff)
qed

lemma findname_loop_correct:
  assumes "names_ok ns" "cstring nm" "0 \<le> bgn" "en < int (length ns)"
    and "\<forall>i < nat bgn. fst (ns ! i) < nm"
    and "\<forall>i < length ns. en < int i \<longrightarrow> nm < fst (ns ! i)"
  shows "findname_loop ns nm bgn en = (case map_of ns nm of Some h \<Rightarrow> h | None \<Rightarrow> 0)"
  using assms
proof (induction ns nm bgn en rule: findname_loop.induct)
  case (1 ns nm bgn en)
  show ?case
  proof (cases "bgn \<le> en")
    case False
    have "nm \<notin> fst ` set ns"
    proof
      assume "nm \<in> fst ` set ns"
      then obtain i where i: "i < length ns" "fst (ns ! i) = nm"
        by (auto simp: in_set_conv_nth)
      then have "i < nat bgn \<or> en < int i" using False by linarith
      then show False using i "1.prems"(5,6) by auto
    qed
    then have "map_of ns nm = None" by (simp add: map_of_eq_None_iff)
    then show ?thesis using False by (subst findname_loop.simps) simp
  next
    case True
    define mid where "mid = (bgn + en) div 2"
    have m: "bgn \<le> mid" "mid \<le> en" "0 \<le> mid" "nat mid < length ns"
      using True "1.prems"(3,4) by (auto simp: mid_def)
    have cs: "cstring (fst (ns ! nat mid))" using "1.prems"(1) m(4) by (rule names_ok_cstring)
    consider (eq) "strcmp (fst (ns ! nat mid)) nm = 0"
      | (lt) "strcmp (fst (ns ! nat mid)) nm < 0"
      | (gt) "strcmp (fst (ns ! nat mid)) nm > 0"
      by linarith
    then show ?thesis
    proof cases
      case eq
      then have "fst (ns ! nat mid) = nm" using cs "1.prems"(2) by (simp add: strcmp_eq)
      then have "(nm, snd (ns ! nat mid)) \<in> set ns" using m(4) by (metis nth_mem prod.collapse)
      then have "map_of ns nm = Some (snd (ns ! nat mid))"
        using names_ok_distinct [OF "1.prems"(1)] by simp
      then show ?thesis
        using True eq by (subst findname_loop.simps) (simp add: mid_def Let_def)
    next
      case lt
      then have l: "fst (ns ! nat mid) < nm" using cs "1.prems"(2) by (simp add: strcmp_less)
      have a: "\<forall>i < nat (mid + 1). fst (ns ! i) < nm"
      proof (intro allI impI)
        fix i assume "i < nat (mid + 1)"
        then have "i \<le> nat mid" using m(3) by linarith
        from names_ok_nth_le [OF "1.prems"(1) this m(4)] l
        show "fst (ns ! i) < nm" by simp
      qed
      have ne: "strcmp (fst (ns ! nat mid)) nm \<noteq> 0" using lt by simp
      have "findname_loop ns nm (mid + 1) en = (case map_of ns nm of Some h \<Rightarrow> h | None \<Rightarrow> 0)"
        using "1.IH"(1) [OF True mid_def refl refl ne lt "1.prems"(1,2) _ "1.prems"(4) a "1.prems"(6)]
          m(3) by simp
      moreover have "findname_loop ns nm bgn en = findname_loop ns nm (mid + 1) en"
        using True lt by (subst findname_loop.simps) (simp add: mid_def Let_def)
      ultimately show ?thesis by simp
    next
      case gt
      have ge: "\<not> strcmp (fst (ns ! nat mid)) nm < 0" "strcmp (fst (ns ! nat mid)) nm \<noteq> 0"
        using gt by simp_all
      then have l: "nm < fst (ns ! nat mid)"
        using cs "1.prems"(2) by (simp add: strcmp_less strcmp_eq not_less le_less)
      have b: "\<forall>i < length ns. mid - 1 < int i \<longrightarrow> nm < fst (ns ! i)"
      proof (intro allI impI)
        fix i assume i: "i < length ns" "mid - 1 < int i"
        then have "nat mid \<le> i" by linarith
        from names_ok_nth_le [OF "1.prems"(1) this i(1)] l
        show "nm < fst (ns ! i)" by simp
      qed
      have e: "mid - 1 < int (length ns)" using m(4) by linarith
      have "findname_loop ns nm bgn (mid - 1) = (case map_of ns nm of Some h \<Rightarrow> h | None \<Rightarrow> 0)"
        using "1.IH"(2) [OF True mid_def refl refl ge(2) ge(1) "1.prems"(1,2,3) e "1.prems"(5) b]
        by simp
      moreover have "findname_loop ns nm bgn en = findname_loop ns nm bgn (mid - 1)"
        using True ge by (subst findname_loop.simps) (simp add: mid_def Let_def)
      ultimately show ?thesis by simp
    qed
  qed
qed

lemma skynet_handle_findname_map_of:
  assumes "names_ok (name s)" "cstring nm"
  shows "skynet_handle_findname nm s = (case map_of (name s) nm of Some h \<Rightarrow> h | None \<Rightarrow> 0)"
  unfolding skynet_handle_findname_def
  by (rule findname_loop_correct [OF assms]) simp_all

lemma names_ok_insert:
  assumes ok: "names_ok ns" and nm: "cstring nm" and p: "p \<le> length ns"
    and lo: "\<forall>i < p. fst (ns ! i) < nm"
    and hi: "\<forall>i < length ns. p \<le> i \<longrightarrow> nm < fst (ns ! i)"
  shows "names_ok (take p ns @ [(nm, h)] @ drop p ns)"
proof -
  let ?P = "\<lambda>a b. strcmp (fst a) (fst b) < 0"
  have cs: "\<forall>e \<in> set ns. cstring (fst e)" and s: "sorted_wrt ?P ns"
    using ok by (simp_all add: names_ok_def)
  have s2: "sorted_wrt ?P (take p ns @ drop p ns)" using s by simp
  have ct: "\<forall>e \<in> set (take p ns). cstring (fst e)" "\<forall>e \<in> set (drop p ns). cstring (fst e)"
    using cs by (auto dest: in_set_takeD in_set_dropD)
  have a: "\<forall>x \<in> set (take p ns). ?P x (nm, h)"
  proof
    fix x assume x: "x \<in> set (take p ns)"
    then obtain i where "i < p" "i < length ns" "x = ns ! i"
      by (auto simp: in_set_conv_nth)
    then have "fst x < nm" using lo by simp
    then show "?P x (nm, h)" using ct(1) x nm by (simp add: strcmp_less)
  qed
  have b: "\<forall>y \<in> set (drop p ns). ?P (nm, h) y"
  proof
    fix y assume y: "y \<in> set (drop p ns)"
    then obtain i where "i < length ns - p" "y = ns ! (p + i)"
      by (auto simp: in_set_conv_nth)
    then have "nm < fst y" using hi by simp
    then show "?P (nm, h) y" using ct(2) y nm by (simp add: strcmp_less)
  qed
  have "sorted_wrt ?P (take p ns @ [(nm, h)] @ drop p ns)"
    using s2 a b unfolding sorted_wrt_append by simp
  then show ?thesis
    using ct nm unfolding names_ok_def by auto
qed

text \<open>
  Claim C7.  On a registry whose name table is sorted (as every table built by
  \<open>_insert_name\<close> is) and has room under the assertion of \<open>_insert_name_before\<close>:
  if the name is not in the table, \<open>skynet_handle_namehandle\<close> succeeds and
  \<open>skynet_handle_findname\<close> then returns the handle just bound; if the name is in
  the table it fails and leaves the registry as it was.  So it fails exactly when
  the name is already present: a bound name is never rebound.
\<close>

theorem namehandle_then_findname:
  assumes "names_ok (name (H w))" "cstring n"
    and "length (name (H w)) < name_cap (H w) \<or> name_cap (H w) * 2 \<le> MAX_SLOT_SIZE"
  shows "(n \<notin> fst ` set (name (H w)) \<longrightarrow>
            (\<exists>w'. skynet_handle_namehandle h n w = Some (Some n, w')
               \<and> skynet_handle_findname n (H w') = h \<and> names_ok (name (H w'))))
       \<and> (n \<in> fst ` set (name (H w)) \<longrightarrow> skynet_handle_namehandle h n w = Some (None, w))"
proof -
  let ?ns = "name (H w)"
  note lp = insert_name_loop_correct [OF assms(1,2), of 0 "int (length ?ns) - 1"]
  have pre: "(n \<in> fst ` set ?ns \<longrightarrow> insert_name_loop ?ns n 0 (int (length ?ns) - 1) = None)
       \<and> (n \<notin> fst ` set ?ns \<longrightarrow>
            (\<exists>p \<le> length ?ns. insert_name_loop ?ns n 0 (int (length ?ns) - 1) = Some (int p)
               \<and> (\<forall>i < p. fst (?ns ! i) < n) \<and> (\<forall>i < length ?ns. p \<le> i \<longrightarrow> n < fst (?ns ! i))))"
    by (rule lp) simp_all
  show ?thesis
  proof (intro conjI impI)
    assume "n \<in> fst ` set ?ns"
    then have "insert_name_loop ?ns n 0 (int (length ?ns) - 1) = None"
      using pre [THEN conjunct1] by (rule_tac mp)
    then show "skynet_handle_namehandle h n w = Some (None, w)"
      by (simp add: skynet_handle_namehandle_def insert_name_def)
  next
    assume "n \<notin> fst ` set ?ns"
    then obtain p where p: "p \<le> length ?ns"
      "insert_name_loop ?ns n 0 (int (length ?ns) - 1) = Some (int p)"
      "\<forall>i < p. fst (?ns ! i) < n" "\<forall>i < length ?ns. p \<le> i \<longrightarrow> n < fst (?ns ! i)"
      using pre [THEN conjunct2, THEN mp] by auto
    let ?ns' = "take p ?ns @ [(n, h)] @ drop p ?ns"
    have ok': "names_ok ?ns'" using assms(1,2) p(1,3,4) by (rule names_ok_insert)
    have "\<exists>s1. insert_name_before (H w) n h p = Some s1 \<and> name s1 = ?ns'"
    proof (cases "name_cap (H w) \<le> length ?ns")
      case True
      then have "name_cap (H w) * 2 \<le> MAX_SLOT_SIZE" using assms(3) by auto
      then show ?thesis using True
        by (simp add: insert_name_before_def Let_def c_assert_def)
    next
      case False
      then show ?thesis by (simp add: insert_name_before_def Let_def)
    qed
    then obtain s1 where s1: "insert_name_before (H w) n h p = Some s1" "name s1 = ?ns'"
      by blast
    have "map_of ?ns' n = Some h"
      by (rule map_of_is_SomeI [OF names_ok_distinct [OF ok']]) simp
    then have f: "skynet_handle_findname n s1 = h"
      using skynet_handle_findname_map_of [of s1 n] ok' assms(2) s1(2) by simp
    have "skynet_handle_namehandle h n w = Some (Some n, w\<lparr>H := s1\<rparr>)"
      by (simp add: skynet_handle_namehandle_def insert_name_def p(2) s1(1))
    then show "\<exists>w'. skynet_handle_namehandle h n w = Some (Some n, w')
               \<and> skynet_handle_findname n (H w') = h \<and> names_ok (name (H w'))"
      using f ok' s1(2) by simp
  qed
qed

theorem namehandle_then_findname_witness:
  "names_ok (name (H (example_world\<lparr>H := empty_storage\<lparr>name := example_names\<rparr>\<rparr>)))
   \<and> cstring ''harbor'' \<and> ''harbor'' \<notin> fst ` set example_names \<and> ''gate'' \<in> fst ` set example_names
   \<and> (\<exists>w'. skynet_handle_namehandle 5 ''harbor''
              (example_world\<lparr>H := empty_storage\<lparr>name := example_names\<rparr>\<rparr>) = Some (Some ''harbor'', w')
         \<and> skynet_handle_findname ''harbor'' (H w') = 5)
   \<and> skynet_handle_namehandle 5 ''gate'' (example_world\<lparr>H := empty_storage\<lparr>name := example_names\<rparr>\<rparr>)
       = Some (None, example_world\<lparr>H := empty_storage\<lparr>name := example_names\<rparr>\<rparr>)"
proof -
  let ?w = "example_world\<lparr>H := empty_storage\<lparr>name := example_names\<rparr>\<rparr>"
  have a: "names_ok (name (H ?w))"
    by (simp add: names_ok_def example_names_def cstring_def)
  have b: "cstring ''harbor''" "cstring ''gate''" by (simp_all add: cstring_def)
  have c: "length (name (H ?w)) < name_cap (H ?w) \<or> name_cap (H ?w) * 2 \<le> MAX_SLOT_SIZE"
    by (simp add: empty_storage_def MAX_SLOT_SIZE_def)
  have d: "''harbor'' \<notin> fst ` set example_names" "''gate'' \<in> fst ` set example_names"
    by (simp_all add: example_names_def)
  show ?thesis
    using namehandle_then_findname [OF a b(1) c, of 5] namehandle_then_findname [OF a b(2) c, of 5]
      a b d by auto
qed

subsection \<open>Dispatch: messages handled in one turn\<close>

declare dispatch_loop.simps [simp del]

lemma overload_loop_small: "len \<le> th \<Longrightarrow> overload_loop len ov th = Some (ov, th)"
  by (subst overload_loop.simps) simp

lemma turn_queue_pop:
  assumes "pos < len" "len < 64"
  shows "skynet_mq_pop (turn_queue len pos) = Some (Some blank_message, turn_queue len (pos + 1))"
proof -
  have "overload_loop (len - (pos + 1)) 0 1024 = Some (0, 1024)"
    using assms by (intro overload_loop_small) simp
  moreover have "nat (int len - (1 + int pos)) = len - (pos + 1)" by simp
  ultimately show ?thesis
    using assms
    by (simp add: skynet_mq_pop_def turn_queue_def skynet_mq_create_def DEFAULT_QUEUE_SIZE_def
        MQ_OVERLOAD_def Let_def)
qed

lemma turn_queue_pop_empty:
  "skynet_mq_pop (turn_queue len len) = Some (None, (turn_queue len len)\<lparr>in_global := 0\<rparr>)"
  by (simp add: skynet_mq_pop_def turn_queue_def skynet_mq_create_def MQ_OVERLOAD_def)

lemma turn_queue_length: "pos \<le> len \<Longrightarrow> skynet_mq_length (turn_queue len pos) = len - pos"
  by (simp add: skynet_mq_length_def turn_queue_def)

lemma turn_queue_overload: "skynet_mq_overload (turn_queue len pos) = (0, turn_queue len pos)"
  by (simp add: skynet_mq_overload_def turn_queue_def skynet_mq_create_def)

lemma turn_world_sel:
  "mqs (turn_world len pos cnt refc hk) 0 = Some (turn_queue len pos)"
  "ctxs (turn_world len pos cnt refc hk) 0 = Some (turn_context cnt refc)"
  "Q_head (turn_world len pos cnt refc hk) = None"
  "Q_tail (turn_world len pos cnt refc hk) = None"
  by (simp_all add: turn_world_def)

lemma turn_world_upd:
  "(turn_world len pos cnt refc hk)\<lparr>mqs := (mqs (turn_world len pos cnt refc hk))(0 \<mapsto> turn_queue len pos')\<rparr>
     = turn_world len pos' cnt refc hk"
  "(turn_world len pos cnt refc hk)\<lparr>ctxs := (ctxs (turn_world len pos cnt refc hk))(0 \<mapsto> turn_context cnt' refc')\<rparr>
     = turn_world len pos cnt' refc' hk"
  "(turn_world len pos cnt refc hk)\<lparr>handle_key := hk'\<rparr> = turn_world len pos cnt refc hk'"
  by (simp_all add: turn_world_def)

lemma turn_dispatch_message:
  "dispatch_message idle_handler 0 blank_message (turn_world len pos cnt refc hk)
     = Some (turn_world len pos (cnt + 1) refc 1)"
proof -
  have c: "(turn_context cnt refc)\<lparr>message_count := cnt + 1\<rparr> = turn_context (cnt + 1) refc"
    "handle (turn_context cnt refc) = 1" "init (turn_context cnt refc)"
    "logfile (turn_context cnt refc) = None" "cb (turn_context x refc) = Some 0"
    "\<not> profile (turn_context x refc)" "message_count (turn_context cnt refc) = cnt" for x
    by (simp_all add: turn_context_def)
  show ?thesis
    by (simp add: dispatch_message_def turn_world_sel c c_assert_def turn_world_upd Let_def
        idle_handler_def)
qed

lemma turn_loop_step:
  assumes "i < n" "pos < len" "len < 64"
  shows "dispatch_loop idle_handler 0 0 1 weight i n sm (turn_world len pos cnt refc hk) =
     dispatch_loop idle_handler 0 0 1 weight (i + 1)
       (if i = 0 \<and> weight \<ge> 0 then int (len - (pos + 1)) div 2 ^ nat weight else n)
       (skynet_monitor_trigger (skynet_monitor_trigger sm 0 1) 0 0)
       (turn_world len (pos + 1) (cnt + 1) refc 1)"
proof -
  have s: "source blank_message = 0" by (simp add: blank_message_def)
  have c: "cb (turn_context cnt refc) = Some 0" by (simp add: turn_context_def)
  have l: "skynet_mq_length (turn_queue len (Suc pos)) = len - Suc pos"
    using assms(2) by (intro turn_queue_length) simp
  show ?thesis
    using assms(1)
    by (subst dispatch_loop.simps)
       (simp add: turn_world_sel turn_queue_pop [OF assms(2,3)] turn_queue_overload turn_world_upd
          turn_dispatch_message s c l Let_def)
qed

lemma turn_loop_end:
  "\<not> i < n \<Longrightarrow> dispatch_loop run c q h weight i n sm w = Some (Inr (), sm, w)"
  by (subst dispatch_loop.simps) simp


lemma turn_loop_run:
  assumes "1 \<le> i" "i \<le> n" "pos + nat (n - i) \<le> len" "len < 64"
  shows "\<exists>sm'. dispatch_loop idle_handler 0 0 1 weight i n sm (turn_world len pos cnt refc hk)
           = Some (Inr (), sm', turn_world len (pos + nat (n - i)) (cnt + of_nat (nat (n - i)))
                                 refc (if i < n then 1 else hk))"
  using assms(1-3)
proof (induction "nat (n - i)" arbitrary: i pos cnt sm hk)
  case 0
  then have "\<not> i < n" by simp
  then show ?case using 0 by (simp add: turn_loop_end)
next
  case (Suc k)
  then have lt: "i < n" and p: "pos < len" by simp_all
  have k: "k = nat (n - (i + 1))" using Suc.hyps(2) by simp
  have a: "1 \<le> i + 1" "i + 1 \<le> n" "(pos + 1) + nat (n - (i + 1)) \<le> len"
    using Suc.prems Suc.hyps(2) lt by simp_all
  from Suc.hyps(1) [OF k a, of "skynet_monitor_trigger (skynet_monitor_trigger sm 0 1) 0 0"
      "cnt + 1" 1]
  obtain sm' where r: "dispatch_loop idle_handler 0 0 1 weight (i + 1) n
        (skynet_monitor_trigger (skynet_monitor_trigger sm 0 1) 0 0)
        (turn_world len (pos + 1) (cnt + 1) refc 1)
      = Some (Inr (), sm', turn_world len (pos + 1 + nat (n - (i + 1)))
                (cnt + 1 + of_nat (nat (n - (i + 1)))) refc (if i + 1 < n then 1 else 1))"
    by blast
  have e: "pos + 1 + nat (n - (i + 1)) = pos + nat (n - i)"
    "cnt + 1 + of_nat (nat (n - (i + 1))) = cnt + of_nat (nat (n - i))"
    using Suc.hyps(2) k by simp_all
  have i0: "i \<noteq> 0" using Suc.prems(1) by simp
  show ?case
    using turn_loop_step [OF lt p assms(4), of weight sm cnt refc hk] r lt i0
    unfolding e by simp
qed

lemma turn_loop_first:
  assumes "0 < len" "len < 64"
  shows "\<exists>sm'. dispatch_loop idle_handler 0 0 1 weight 0 1 sm (turn_world len 0 cnt refc hk)
           = Some (Inr (), sm',
                   turn_world len (if weight < 0 then 1 else max 1 ((len - 1) div 2 ^ nat weight))
                     (cnt + of_nat (if weight < 0 then 1
                                    else max 1 ((len - 1) div 2 ^ nat weight))) refc 1)"
proof -
  define m where "m = (len - 1) div 2 ^ nat weight"
  define n1 where "n1 = (if 0 \<le> weight then int m else 1)"
  let ?sm1 = "skynet_monitor_trigger (skynet_monitor_trigger sm 0 1) 0 0"
  have "int (len - (0 + 1)) div 2 ^ nat weight = int m"
    unfolding m_def by (simp add: zdiv_int)
  then have "(if (0::int) = 0 \<and> 0 \<le> weight then int (len - (0 + 1)) div 2 ^ nat weight else 1) = n1"
    unfolding n1_def by simp
  then have s: "dispatch_loop idle_handler 0 0 1 weight 0 1 sm (turn_world len 0 cnt refc hk)
      = dispatch_loop idle_handler 0 0 1 weight 1 n1 ?sm1 (turn_world len 1 (cnt + 1) refc 1)"
    using turn_loop_step [of 0 1 0 len weight sm cnt refc hk] assms by simp
  have k: "(if weight < 0 then 1 else max 1 ((len - 1) div 2 ^ nat weight)) = max 1 (nat n1)"
    unfolding n1_def m_def by simp
  have ml: "m \<le> len - 1" unfolding m_def by (rule div_le_dividend)
  show ?thesis
  proof (cases "1 \<le> n1")
    case True
    have b: "1 + nat (n1 - 1) \<le> len" using assms(1) True ml unfolding n1_def by (simp split: if_splits)
    from turn_loop_run [OF _ True b assms(2), of weight ?sm1 "cnt + 1" refc 1]
    obtain sm' where r: "dispatch_loop idle_handler 0 0 1 weight 1 n1 ?sm1
          (turn_world len 1 (cnt + 1) refc 1)
        = Some (Inr (), sm', turn_world len (1 + nat (n1 - 1))
                  (cnt + 1 + of_nat (nat (n1 - 1))) refc (if 1 < n1 then 1 else 1))"
      by auto
    have e: "1 + nat (n1 - 1) = max 1 (nat n1)" using True by simp
    have "cnt + 1 + of_nat (nat (n1 - 1)) = cnt + of_nat (1 + nat (n1 - 1))" by simp
    then have e2: "cnt + 1 + of_nat (nat (n1 - 1)) = cnt + of_nat (max 1 (nat n1))"
      by (simp only: e)
    show ?thesis unfolding s k using r unfolding e2 e by simp
  next
    case False
    then have z: "max 1 (nat n1) = 1" by simp
    have "\<not> 1 < n1" using False by simp
    from turn_loop_end [OF this] show ?thesis unfolding s k z by simp
  qed
qed

lemma turn_grab:
  "skynet_handle_grab 1 (turn_world len pos cnt refc hk)
     = Some (Some 0, turn_world len pos cnt (refc + 1) hk)"
proof -
  have h: "H (turn_world len pos cnt refc hk)
      = \<lparr>harbor = 0, handle_index = 2, slot_size = 4, slot = [None, Some 0, None, None],
         name_cap = 2, name = []\<rparr>"
    by (simp add: turn_world_def)
  have c: "handle (turn_context cnt refc) = 1"
    "(turn_context cnt refc)\<lparr>ref := ref (turn_context cnt refc) + 1\<rparr> = turn_context cnt (refc + 1)"
    by (simp_all add: turn_context_def)
  show ?thesis
    by (simp add: skynet_handle_grab_def skynet_context_grab_def h turn_world_sel c turn_world_upd
        Let_def)
qed

lemma turn_release:
  "refc \<noteq> 1 \<Longrightarrow> skynet_context_release 0 (turn_world len pos cnt refc hk)
     = Some (Some 0, turn_world len pos cnt (refc - 1) hk)"
proof -
  assume r: "refc \<noteq> 1"
  have c: "ref (turn_context cnt refc) = refc"
    "(turn_context cnt refc)\<lparr>ref := refc - 1\<rparr> = turn_context cnt (refc - 1)"
    by (simp_all add: turn_context_def)
  show ?thesis
    using r by (simp add: skynet_context_release_def turn_world_sel c turn_world_upd Let_def)
qed

text \<open>
  Claim C2.  One scheduling turn on the mailbox of a service whose handler does
  nothing, holding \<open>len\<close> messages (\<open>0 < len < 64\<close>), with a weight below 32: the turn
  returns the same mailbox with its head advanced by the number of messages handled,
  which is also the message count of the service.  That number is 1 for a negative
  weight, and \<open>max 1 ((len - 1) div 2 ^ weight)\<close> for a weight \<open>\<ge> 0\<close>: the bound is
  read from the length of the mailbox after the first message has been popped.  With
  weight 0 the turn leaves one message behind whenever \<open>len \<ge> 2\<close>, and with weight
  \<open>k \<ge> 1\<close> it does not handle \<open>len div 2 ^ k\<close> messages in general.
\<close>

theorem dispatch_turn_count:
  assumes "0 < len" "len < 64" "weight < 32"
  shows "\<exists>sm'. skynet_context_message_dispatch idle_handler sm (Some 0) weight
                  (turn_world len 0 0 1 0)
           = Some (Some 0, sm',
                   turn_world len (if weight < 0 then 1 else max 1 ((len - 1) div 2 ^ nat weight))
                     (of_nat (if weight < 0 then 1 else max 1 ((len - 1) div 2 ^ nat weight)))
                     1 1)"
proof -
  let ?k = "if weight < 0 then 1 else max 1 ((len - 1) div 2 ^ nat weight)"
  from turn_loop_first [OF assms(1,2), of weight sm 0 2 0]
  obtain sm' where l: "dispatch_loop idle_handler 0 0 1 weight 0 1 sm (turn_world len 0 0 2 0)
      = Some (Inr (), sm', turn_world len ?k (of_nat ?k) 2 1)"
    by auto
  have h: "skynet_mq_handle (turn_queue len 0) = 1"
    by (simp add: skynet_mq_handle_def turn_queue_def skynet_mq_create_def)
  have q: "ctx_queue (turn_context x 2) = 0" for x by (simp add: turn_context_def)
  have p: "skynet_globalmq_pop (turn_world len a b c d) = Some (None, turn_world len a b c d)"
    for a b c d
    by (simp add: skynet_globalmq_pop_def turn_world_sel)
  have "skynet_context_message_dispatch idle_handler sm (Some 0) weight (turn_world len 0 0 1 0)
      = Some (Some 0, sm', turn_world len ?k (of_nat ?k) 1 1)"
    by (simp add: skynet_context_message_dispatch_def turn_world_sel h turn_grab l q c_assert_def p
        turn_release)
  then show ?thesis by blast
qed


theorem dispatch_turn_count_witness:
  "(0::nat) < 2 \<and> (2::nat) < 64 \<and> (0::int) < 32
   \<and> (\<exists>sm'. skynet_context_message_dispatch idle_handler skynet_monitor_new (Some 0) 0
                 (turn_world 2 0 0 1 0)
          = Some (Some 0, sm', turn_world 2 1 1 1 1))
   \<and> skynet_mq_length (turn_queue 2 1) = 1
   \<and> (\<exists>sm'. skynet_context_message_dispatch idle_handler skynet_monitor_new (Some 0) 1
                 (turn_world 4 0 0 1 0)
          = Some (Some 0, sm', turn_world 4 1 1 1 1))
   \<and> skynet_mq_length (turn_queue 4 1) = 3"
  using dispatch_turn_count [of 2 0 skynet_monitor_new] dispatch_turn_count [of 4 1 skynet_monitor_new]
  by (simp add: turn_queue_length)

end
